theory Spec2Isabelle
  imports Complex_Main "HOL-Library.Multiset" "HOL-Library.Sublist"
begin

section \<open>Data model of the SPECK3D coder\<close>

text \<open>
  The embedding follows \<^verbatim>\<open>src/SPECK3D.cpp\<close> and \<^verbatim>\<open>src/speck_helper.cpp\<close>.
  Conventions:
  \<^item> \<^verbatim>\<open>size_t\<close> and \<^verbatim>\<open>uint32_t\<close> values are natural numbers. Where the source
    narrows a \<^verbatim>\<open>size_t\<close> to \<^verbatim>\<open>uint32_t\<close> (the lengths of the initial set) the model
    writes \<open>mod 2 ^ 32\<close>; where it multiplies or adds sizes that a caller chooses
    freely (\<^verbatim>\<open>set_dims\<close>, \<^verbatim>\<open>set_bit_budget\<close>, the budget test of
    \<^verbatim>\<open>m_ready_to_encode\<close>) the model writes the wrap-around \<open>mod 2 ^ 64\<close>.
  \<^item> \<^verbatim>\<open>double\<close> coefficients and the threshold are real numbers. On the concrete inputs
    evaluated below every intermediate value is a dyadic rational of small exponent, for
    which \<^verbatim>\<open>double\<close> arithmetic is exact.
  \<^item> The calls into the floating-point library whose results depend on rounding
    (\<^verbatim>\<open>std::log2\<close> on a \<^verbatim>\<open>double\<close> and on a \<^verbatim>\<open>float\<close>, the single-precision product
    with \<^verbatim>\<open>0.8f\<close>) are not computed by the model: they are the fields of a record
    \<open>libm\<close> that every function using them takes as a parameter, and the theorems hold
    for every such record.
  \<^item> The compile-time switch \<^verbatim>\<open>QZ_TERM\<close> is the field \<open>QZ_TERM\<close> of the state.
  \<^item> \<^verbatim>\<open>assert\<close> is compiled out (\<^verbatim>\<open>NDEBUG\<close>); it has no effect in the model.
  \<^item> The recursion \<^verbatim>\<open>m_process_S_*\<close> / \<^verbatim>\<open>m_code_S_*\<close> and the loops over a bucket of
    the LIS (whose bound is re-read on every iteration) are driven by a fuel argument;
    a result \<open>None\<close> means that the fuel ran out, that a set was appended to a
    bucket of the LIS that does not exist, or, in the decoder, that a bit outside of the
    bit buffer was requested. The encoder never returns \<open>None\<close>
    (\<open>encode_with_char\<close> below).
\<close>

datatype RTNType = Good | BitBudgetMet | InvalidParam | Error | WrongSize | IOError

datatype SigType = Insig | Sig | NewlySig | Dunno

datatype SetType = TypeS | Garbage

text \<open>
  The floating-point expressions of the source that the model does not compute:
  \<^item> \<open>floor_log2 x\<close> is \<^verbatim>\<open>int32_t(std::floor(std::log2(x)))\<close> for a \<^verbatim>\<open>double x\<close>
    (\<^verbatim>\<open>encode\<close>), whatever the platform makes of it, also for \<^verbatim>\<open>x = 0\<close>;
  \<^item> \<open>log2f_eighth len\<close> is \<^verbatim>\<open>std::log2(float(len) / 8.0f)\<close> (\<^verbatim>\<open>num_of_xforms\<close>);
  \<^item> \<open>sigmap_limit len\<close> is \<^verbatim>\<open>size_t(len * sigmap_threshold)\<close> with the \<^verbatim>\<open>float\<close>
    constant \<^verbatim>\<open>0.8\<close> (\<^verbatim>\<open>encode\<close>).
\<close>

record libm =
  floor_log2 :: "real \<Rightarrow> int"
  log2f_eighth :: "nat \<Rightarrow> real"
  sigmap_limit :: "nat \<Rightarrow> nat"


text \<open>
  \<^verbatim>\<open>std::pow(2.0, m)\<close> for an integer \<open>m\<close>: a power of two is exact in \<^verbatim>\<open>double\<close>
  down to \<open>2 ^ -1074\<close>, below which the result is zero. (An overflow, \<open>m > 1023\<close>,
  has no real number as its value; \<open>floor_log2\<close> of a finite \<^verbatim>\<open>double\<close> never
  asks for it.)
\<close>

definition pow2 :: "int \<Rightarrow> real" where
  "pow2 m = (if m < - 1074 then 0 else 2 powr real_of_int m)"

record SPECKSet3D =
  start_x :: nat
  start_y :: nat
  start_z :: nat
  length_x :: nat
  length_y :: nat
  length_z :: nat
  part_level :: nat
  signif :: SigType
  type :: SetType

text \<open>
  Modelled from the spec: the default member initialisers of \<^verbatim>\<open>SPECKSet3D\<close> live in
  \<^verbatim>\<open>SPECK3D.h\<close>, which is not among the sources. A fresh set starts at the origin with
  partition level 0, is live (not garbage) and has unknown significance.
\<close>

definition default_set :: SPECKSet3D where
  "default_set = \<lparr> start_x = 0, start_y = 0, start_z = 0,
                   length_x = 0, length_y = 0, length_z = 0,
                   part_level = 0, signif = Dunno, type = TypeS \<rparr>"

definition is_pixel :: "SPECKSet3D \<Rightarrow> bool" where
  "is_pixel s \<longleftrightarrow> length_x s = 1 \<and> length_y s = 1 \<and> length_z s = 1"

definition is_empty :: "SPECKSet3D \<Rightarrow> bool" where
  "is_empty s \<longleftrightarrow> length_z s = 0 \<or> length_y s = 0 \<or> length_x s = 0"

record SPECK3D =
  QZ_TERM :: bool
  m_dim_x :: nat
  m_dim_y :: nat
  m_dim_z :: nat
  m_coeff_len :: nat
  m_coeff_buf :: "real list option"
  m_max_coeff_bits :: int
  m_bit_buffer :: "bool list"
  m_sign_array :: "bool list"
  m_budget :: nat
  m_bit_idx :: nat
  m_threshold :: real
  m_encode_mode :: bool
  m_sig_map :: "bool list"
  m_sig_map_enabled :: bool
  m_qz_term_lev :: int
  m_LIS :: "SPECKSet3D list list"
  m_LIP :: "nat list"
  m_LSP_new :: "nat list"
  m_LSP_old :: "nat list"

text \<open>
  Modelled from the spec: the sentinel that marks a dead slot of the LIP
  (\<^verbatim>\<open>m_u64_garbage_val\<close>) and the scratch tags \<^verbatim>\<open>m_false\<close>, \<^verbatim>\<open>m_true\<close> are declared in
  \<^verbatim>\<open>SPECK3D.h\<close>. The sentinel is the largest 64-bit value, which no coefficient index
  can take.
\<close>

definition m_u64_garbage_val :: nat where
  "m_u64_garbage_val = 2 ^ 64 - 1"

definition m_false :: nat where "m_false = 0"
definition m_true :: nat where "m_true = 1"

definition coeff :: "SPECK3D \<Rightarrow> nat \<Rightarrow> real" where
  "coeff st i = the (m_coeff_buf st) ! i"

definition set_dims :: "nat \<Rightarrow> nat \<Rightarrow> nat \<Rightarrow> SPECK3D \<Rightarrow> SPECK3D" where
  "set_dims x y z st =
     st\<lparr> m_dim_x := x, m_dim_y := y, m_dim_z := z, m_coeff_len := (x * y * z) mod 2 ^ 64 \<rparr>"

definition set_bit_budget :: "nat \<Rightarrow> SPECK3D \<Rightarrow> SPECK3D" where
  "set_bit_budget budget st =
     (let md = budget mod 8 in
      if md = 0 then st\<lparr> m_budget := budget \<rparr>
      else st\<lparr> m_budget := (budget + 8 - md) mod 2 ^ 64 \<rparr>)"

definition set_quantization_term_level :: "int \<Rightarrow> SPECK3D \<Rightarrow> SPECK3D" where
  "set_quantization_term_level lev st = st\<lparr> m_qz_term_lev := lev \<rparr>"

subsection \<open>Readiness checks\<close>

definition m_ready_to_encode :: "SPECK3D \<Rightarrow> bool" where
  "m_ready_to_encode st =
     (if m_coeff_buf st = None then False
      else if m_dim_x st = 0 \<or> m_dim_y st = 0 \<or> m_dim_z st = 0 \<or> m_dim_z st = 1 then False
      else if \<not> QZ_TERM st \<and> (m_budget st = 0 \<or> m_budget st > (m_coeff_len st * 64) mod 2 ^ 64)
      then False
      else True)"

definition m_ready_to_decode :: "SPECK3D \<Rightarrow> bool" where
  "m_ready_to_decode st =
     (if m_bit_buffer st = [] then False
      else if m_dim_x st = 0 \<or> m_dim_y st = 0 \<or> m_dim_z st = 0 then False
      else True)"

subsection \<open>Set partitioner\<close>

definition m_partition_S_XYZ :: "SPECKSet3D \<Rightarrow> SPECKSet3D list" where
  "m_partition_S_XYZ s =
     (let split_x0 = length_x s - length_x s div 2; split_x1 = length_x s div 2;
          split_y0 = length_y s - length_y s div 2; split_y1 = length_y s div 2;
          split_z0 = length_z s - length_z s div 2; split_z1 = length_z s div 2;
          lev = part_level s + (if split_x1 > 0 then 1 else 0)
                             + (if split_y1 > 0 then 1 else 0)
                             + (if split_z1 > 0 then 1 else 0);
          sub = default_set\<lparr> part_level := lev \<rparr>
      in [ sub\<lparr> start_x := start_x s, length_x := split_x0,
                start_y := start_y s, length_y := split_y0,
                start_z := start_z s, length_z := split_z0 \<rparr>,
           sub\<lparr> start_x := start_x s + split_x0, length_x := split_x1,
                start_y := start_y s, length_y := split_y0,
                start_z := start_z s, length_z := split_z0 \<rparr>,
           sub\<lparr> start_x := start_x s, length_x := split_x0,
                start_y := start_y s + split_y0, length_y := split_y1,
                start_z := start_z s, length_z := split_z0 \<rparr>,
           sub\<lparr> start_x := start_x s + split_x0, length_x := split_x1,
                start_y := start_y s + split_y0, length_y := split_y1,
                start_z := start_z s, length_z := split_z0 \<rparr>,
           sub\<lparr> start_x := start_x s, length_x := split_x0,
                start_y := start_y s, length_y := split_y0,
                start_z := start_z s + split_z0, length_z := split_z1 \<rparr>,
           sub\<lparr> start_x := start_x s + split_x0, length_x := split_x1,
                start_y := start_y s, length_y := split_y0,
                start_z := start_z s + split_z0, length_z := split_z1 \<rparr>,
           sub\<lparr> start_x := start_x s, length_x := split_x0,
                start_y := start_y s + split_y0, length_y := split_y1,
                start_z := start_z s + split_z0, length_z := split_z1 \<rparr>,
           sub\<lparr> start_x := start_x s + split_x0, length_x := split_x1,
                start_y := start_y s + split_y0, length_y := split_y1,
                start_z := start_z s + split_z0, length_z := split_z1 \<rparr> ])"

definition m_partition_S_XY :: "SPECKSet3D \<Rightarrow> SPECKSet3D list" where
  "m_partition_S_XY s =
     (let split_x0 = length_x s - length_x s div 2; split_x1 = length_x s div 2;
          split_y0 = length_y s - length_y s div 2; split_y1 = length_y s div 2;
          lev = part_level s + (if split_x1 > 0 then 1 else 0)
                             + (if split_y1 > 0 then 1 else 0);
          sub = default_set\<lparr> part_level := lev \<rparr>
      in [ sub\<lparr> start_x := start_x s, length_x := split_x0,
                start_y := start_y s, length_y := split_y0,
                start_z := start_z s, length_z := length_z s \<rparr>,
           sub\<lparr> start_x := start_x s + split_x0, length_x := split_x1,
                start_y := start_y s, length_y := split_y0,
                start_z := start_z s, length_z := length_z s \<rparr>,
           sub\<lparr> start_x := start_x s, length_x := split_x0,
                start_y := start_y s + split_y0, length_y := split_y1,
                start_z := start_z s, length_z := length_z s \<rparr>,
           sub\<lparr> start_x := start_x s + split_x0, length_x := split_x1,
                start_y := start_y s + split_y0, length_y := split_y1,
                start_z := start_z s, length_z := length_z s \<rparr> ])"

definition m_partition_S_Z :: "SPECKSet3D \<Rightarrow> SPECKSet3D list" where
  "m_partition_S_Z s =
     (let split_z0 = length_z s - length_z s div 2; split_z1 = length_z s div 2;
          lev = part_level s + (if split_z1 > 0 then 1 else 0);
          sub = default_set\<lparr> part_level := lev \<rparr>
      in [ sub\<lparr> start_x := start_x s, length_x := length_x s,
                start_y := start_y s, length_y := length_y s,
                start_z := start_z s, length_z := split_z0 \<rparr>,
           sub\<lparr> start_x := start_x s, length_x := length_x s,
                start_y := start_y s, length_y := length_y s,
                start_z := start_z s + split_z0, length_z := split_z1 \<rparr> ])"

subsection \<open>Significance oracle\<close>

text \<open>A \<^verbatim>\<open>for\<close> loop that returns from inside its body at the first hit.\<close>

fun first_some :: "('a \<Rightarrow> 'b option) \<Rightarrow> 'a list \<Rightarrow> 'b option" where
  "first_some f [] = None"
| "first_some f (x # xs) = (case f x of Some r \<Rightarrow> Some r | None \<Rightarrow> first_some f xs)"

text \<open>
  One significance test at a raster index: the bitmap entry when the bitmap is enabled,
  the comparison of the coefficient with the threshold otherwise.
\<close>

definition is_sig_at :: "SPECK3D \<Rightarrow> nat \<Rightarrow> bool" where
  "is_sig_at st i =
     (if m_sig_map_enabled st then m_sig_map st ! i else coeff st i \<ge> m_threshold st)"

text \<open>
  \<^verbatim>\<open>m_decide_significance\<close>: the result \<open>Some (dx, dy, dz)\<close> stands for
  \<^verbatim>\<open>SigType::Sig\<close> with the out-parameter \<^verbatim>\<open>xyz\<close> filled in, \<open>None\<close> for
  \<^verbatim>\<open>SigType::Insig\<close>. The source writes the loop nest twice, once per branch of
  \<^verbatim>\<open>m_sig_map_enabled\<close>; the two copies differ in the test only.
\<close>

definition m_decide_significance :: "SPECK3D \<Rightarrow> SPECKSet3D \<Rightarrow> (nat \<times> nat \<times> nat) option" where
  "m_decide_significance st s =
     (let slice_size = m_dim_x st * m_dim_y st in
      first_some (\<lambda>z.
        let slice_offset = z * slice_size in
        first_some (\<lambda>y.
          let col_offset = slice_offset + y * m_dim_x st in
          first_some (\<lambda>x.
            if is_sig_at st (col_offset + x)
            then Some (x - start_x s, y - start_y s, z - start_z s)
            else None)
          [start_x s ..< start_x s + length_x s])
        [start_y s ..< start_y s + length_y s])
      [start_z s ..< start_z s + length_z s])"

text \<open>
  The deduction made in \<^verbatim>\<open>m_process_S_encode\<close> from the offset of the first significant
  coefficient: the index of the child that holds it, and the array of hints handed to
  \<^verbatim>\<open>m_code_S_encode\<close>.
\<close>

definition sub_i_of :: "SPECKSet3D \<Rightarrow> nat \<times> nat \<times> nat \<Rightarrow> nat" where
  "sub_i_of s xyz =
     (case xyz of (dx, dy, dz) \<Rightarrow>
        (if dx < length_x s - length_x s div 2 then 0 else 1)
      + (if dy < length_y s - length_y s div 2 then 0 else 2)
      + (if dz < length_z s - length_z s div 2 then 0 else 4))"

definition subset_sigs_of :: "nat \<Rightarrow> SigType list" where
  "subset_sigs_of sub_i =
     (let sigs = (replicate 8 Dunno)[sub_i := Sig]
      in if sub_i \<ge> 4 then sigs[0 := Insig, 1 := Insig, 2 := Insig, 3 := Insig] else sigs)"

subsection \<open>Helpers from \<^verbatim>\<open>speck_helper.cpp\<close>\<close>

text \<open>
  \<^verbatim>\<open>num_of_xforms\<close>: the single-precision logarithm comes from the library record; the
  comparison with zero and the truncation to \<^verbatim>\<open>size_t\<close> are computed.
\<close>

definition num_of_xforms :: "libm \<Rightarrow> nat \<Rightarrow> nat" where
  "num_of_xforms fp len =
     (let f = log2f_eighth fp len
      in if f < 0 then 0 else nat \<lfloor>f\<rfloor> + 1)"

function num_of_partitions_loop :: "nat \<Rightarrow> nat \<Rightarrow> nat" where
  "num_of_partitions_loop len num_of_parts =
     (if len > 1 then num_of_partitions_loop (len - len div 2) (num_of_parts + 1)
      else num_of_parts)"
  by pat_completeness auto
termination
  by (relation "measure (\<lambda>(len, num_of_parts). len)") auto

definition num_of_partitions :: "nat \<Rightarrow> nat" where
  "num_of_partitions len = num_of_partitions_loop len 0"

text \<open>
  \<^verbatim>\<open>make_coeff_positive\<close> returns the buffer with every entry made non-negative, the
  sign array and the largest magnitude.
\<close>

definition make_coeff_positive :: "real list \<Rightarrow> nat \<Rightarrow> real list \<times> bool list \<times> real" where
  "make_coeff_positive buf len =
     fold (\<lambda>i (b, sg, mx).
             let (b1, sg1) = (if b ! i < 0 then (b[i := - (b ! i)], sg[i := False]) else (b, sg));
                 mx1 = (if b1 ! i > mx then b1 ! i else mx)
             in (b1, sg1, mx1))
          [0 ..< len] (buf, replicate len True, \<bar>buf ! 0\<bar>)"

subsection \<open>List manager\<close>

definition m_clean_LIS :: "SPECK3D \<Rightarrow> SPECK3D" where
  "m_clean_LIS st =
     st\<lparr> m_LIS := map (filter (\<lambda>s. type s \<noteq> Garbage)) (m_LIS st),
         m_LIP := filter (\<lambda>v. v \<noteq> m_u64_garbage_val) (m_LIP st) \<rparr>"

text \<open>\<^verbatim>\<open>m_LIS[s.part_level].emplace_back(s)\<close> on the list of buckets.\<close>

definition LIS_emplace_back :: "SPECKSet3D \<Rightarrow> SPECKSet3D list list \<Rightarrow> SPECKSet3D list list" where
  "LIS_emplace_back s lis = lis[part_level s := lis ! part_level s @ [s]]"

text \<open>
  The three \<^verbatim>\<open>while\<close> loops of \<^verbatim>\<open>m_initialize_sets_lists\<close> have one shape: partition
  the big set, keep child 0 as the next big set, and append the other children to the
  bucket of their partition level. \<open>init_loop part n\<close> runs \<open>n\<close> rounds of it.
\<close>

fun init_loop :: "(SPECKSet3D \<Rightarrow> SPECKSet3D list) \<Rightarrow> nat \<Rightarrow>
                  SPECKSet3D \<times> SPECKSet3D list list \<Rightarrow> SPECKSet3D \<times> SPECKSet3D list list" where
  "init_loop part 0 bl = bl"
| "init_loop part (Suc n) (big, lis) =
     (let subsets = part big
      in init_loop part n (subsets ! 0, fold LIS_emplace_back (tl subsets) lis))"

definition m_initialize_sets_lists :: "libm \<Rightarrow> SPECK3D \<Rightarrow> SPECK3D" where
  "m_initialize_sets_lists fp st =
     (let num_of_sizes = 1 + num_of_partitions (m_dim_x st) + num_of_partitions (m_dim_y st)
                           + num_of_partitions (m_dim_z st);
          lis0 = replicate num_of_sizes [];
          big0 = default_set\<lparr> length_x := m_dim_x st mod 2 ^ 32,
                               length_y := m_dim_y st mod 2 ^ 32,
                               length_z := m_dim_z st mod 2 ^ 32 \<rparr>;
          num_of_xforms_xy = num_of_xforms fp (min (m_dim_x st) (m_dim_y st));
          num_of_xforms_z = num_of_xforms fp (m_dim_z st);
          xf = min num_of_xforms_xy num_of_xforms_z;
          (big1, lis1) = init_loop m_partition_S_XYZ xf (big0, lis0);
          (big2, lis2) =
             (if xf < num_of_xforms_xy
              then init_loop m_partition_S_XY (num_of_xforms_xy - xf) (big1, lis1)
              else if xf < num_of_xforms_z
              then init_loop m_partition_S_Z (num_of_xforms_z - xf) (big1, lis1)
              else (big1, lis1));
          lis3 = lis2[part_level big2 := big2 # lis2 ! part_level big2]
      in st\<lparr> m_LIS := lis3, m_LIP := [], m_LSP_new := [], m_LSP_old := [] \<rparr>)"

subsection \<open>Bit emission\<close>

definition push_back :: "bool \<Rightarrow> SPECK3D \<Rightarrow> SPECK3D" where
  "push_back b st = st\<lparr> m_bit_buffer := m_bit_buffer st @ [b] \<rparr>"

text \<open>
  The check \<^verbatim>\<open>m_bit_buffer.size() >= m_budget\<close> that follows a \<^verbatim>\<open>push_back\<close>; it is
  compiled out under \<^verbatim>\<open>QZ_TERM\<close>.
\<close>

definition budget_met :: "SPECK3D \<Rightarrow> bool" where
  "budget_met st \<longleftrightarrow> \<not> QZ_TERM st \<and> length (m_bit_buffer st) \<ge> m_budget st"

subsection \<open>Sorting pass of the encoder\<close>

definition m_process_P_encode :: "SPECK3D \<Rightarrow> nat \<Rightarrow> SigType \<Rightarrow> RTNType \<times> SPECK3D" where
  "m_process_P_encode st loc sig =
     (let pixel_idx = m_LIP st ! loc;
          this_pixel_is_sig = (if sig = Dunno then is_sig_at st pixel_idx else sig = Sig);
          st1 = push_back this_pixel_is_sig st
      in if budget_met st1 then (BitBudgetMet, st1)
         else if this_pixel_is_sig then
           (let st2 = push_back (m_sign_array st1 ! pixel_idx) st1;
                st3 = st2\<lparr> m_LSP_new := m_LSP_new st2 @ [pixel_idx] \<rparr>;
                st4 = st3\<lparr> m_LIP := (m_LIP st3)[loc := m_u64_garbage_val] \<rparr>
            in if budget_met st4 then (BitBudgetMet, st4) else (Good, st4))
         else (Good, st1))"

definition LIS_update :: "nat \<Rightarrow> nat \<Rightarrow> (SPECKSet3D \<Rightarrow> SPECKSet3D) \<Rightarrow> SPECK3D \<Rightarrow> SPECK3D" where
  "LIS_update idx1 idx2 f st =
     st\<lparr> m_LIS := (m_LIS st)[idx1 := (m_LIS st ! idx1)[idx2 := f (m_LIS st ! idx1 ! idx2)]] \<rparr>"

definition raster_index :: "SPECK3D \<Rightarrow> SPECKSet3D \<Rightarrow> nat" where
  "raster_index st s = start_z s * m_dim_x st * m_dim_y st + start_y s * m_dim_x st + start_x s"

text \<open>
  \<^verbatim>\<open>m_process_S_encode\<close>, \<^verbatim>\<open>m_code_S_encode\<close> and the loop over the eight children inside
  the latter. Appending a child to a bucket that does not exist is an out-of-range
  vector access in the source; the model stops with \<open>None\<close> there.
\<close>

fun m_process_S_encode :: "nat \<Rightarrow> SPECK3D \<Rightarrow> nat \<Rightarrow> nat \<Rightarrow> SigType \<Rightarrow> (RTNType \<times> SPECK3D) option"
and m_code_S_encode :: "nat \<Rightarrow> SPECK3D \<Rightarrow> nat \<Rightarrow> nat \<Rightarrow> SigType list \<Rightarrow> (RTNType \<times> SPECK3D) option"
and code_S_encode_loop :: "nat \<Rightarrow> SPECK3D \<Rightarrow> (SPECKSet3D \<times> SigType) list \<Rightarrow> (RTNType \<times> SPECK3D) option"
where
  "m_process_S_encode 0 st idx1 idx2 sig = None"
| "m_process_S_encode (Suc fuel) st idx1 idx2 sig =
     (let s = m_LIS st ! idx1 ! idx2;
          found = (if sig = Dunno then m_decide_significance st s else None);
          set_signif = (if sig = Dunno then (if found = None then Insig else Sig) else sig);
          subset_sigs = (case found of Some xyz \<Rightarrow> subset_sigs_of (sub_i_of s xyz)
                                     | None \<Rightarrow> replicate 8 Dunno);
          st1 = LIS_update idx1 idx2 (\<lambda>s. s\<lparr> signif := set_signif \<rparr>) st;
          st2 = push_back (set_signif = Sig) st1
      in if budget_met st2 then Some (BitBudgetMet, st2)
         else if set_signif = Sig then
           (case m_code_S_encode fuel st2 idx1 idx2 subset_sigs of
              None \<Rightarrow> None
            | Some (rtn, st3) \<Rightarrow>
                if \<not> QZ_TERM st3 \<and> rtn = BitBudgetMet then Some (BitBudgetMet, st3)
                else Some (Good, LIS_update idx1 idx2 (\<lambda>s. s\<lparr> type := Garbage \<rparr>) st3))
         else Some (Good, st2))"
| "m_code_S_encode fuel st idx1 idx2 subset_sigs =
     code_S_encode_loop fuel st (zip (m_partition_S_XYZ (m_LIS st ! idx1 ! idx2)) subset_sigs)"
| "code_S_encode_loop fuel st [] = Some (Good, st)"
| "code_S_encode_loop fuel st ((s, sig) # rest) =
     (if is_pixel s then
        (let st1 = st\<lparr> m_LIP := m_LIP st @ [raster_index st s] \<rparr>
         in case m_process_P_encode st1 (length (m_LIP st1) - 1) sig of
              (rtn, st2) \<Rightarrow>
                if \<not> QZ_TERM st2 \<and> rtn = BitBudgetMet then Some (BitBudgetMet, st2)
                else code_S_encode_loop fuel st2 rest)
      else if \<not> is_empty s then
        (let newidx1 = part_level s
         in if newidx1 \<ge> length (m_LIS st) then None
            else
              (let st1 = st\<lparr> m_LIS := LIS_emplace_back s (m_LIS st) \<rparr>;
                   newidx2 = length (m_LIS st1 ! newidx1) - 1
               in case m_process_S_encode fuel st1 newidx1 newidx2 sig of
                    None \<Rightarrow> None
                  | Some (rtn, st2) \<Rightarrow>
                      if \<not> QZ_TERM st2 \<and> rtn = BitBudgetMet then Some (BitBudgetMet, st2)
                      else code_S_encode_loop fuel st2 rest))
      else code_S_encode_loop fuel st rest)"

text \<open>
  The first stage of \<^verbatim>\<open>m_sorting_pass_encode\<close> tags every slot of the LIP
  (\<^verbatim>\<open>m_false\<close>, \<open>sig_pos\<close> or \<open>sig_neg\<close>), moves the significant pixels to
  \<^verbatim>\<open>m_LSP_new\<close>, and then appends the bits serially.
\<close>

definition sig_pos :: nat where "sig_pos = 3"
definition sig_neg :: nat where "sig_neg = 4"

fun emit_tmp_result_sorting :: "nat list \<Rightarrow> SPECK3D \<Rightarrow> RTNType \<times> SPECK3D" where
  "emit_tmp_result_sorting [] st = (Good, st)"
| "emit_tmp_result_sorting (e # es) st =
     (if e = sig_pos then
        (let st1 = push_back True st
         in if budget_met st1 then (BitBudgetMet, st1)
            else (let st2 = push_back True st1
                  in if budget_met st2 then (BitBudgetMet, st2)
                     else emit_tmp_result_sorting es st2))
      else if e = sig_neg then
        (let st1 = push_back True st
         in if budget_met st1 then (BitBudgetMet, st1)
            else (let st2 = push_back False st1
                  in if budget_met st2 then (BitBudgetMet, st2)
                     else emit_tmp_result_sorting es st2))
      else
        (let st1 = push_back False st
         in if budget_met st1 then (BitBudgetMet, st1)
            else emit_tmp_result_sorting es st1))"

text \<open>
  The loop over one bucket of the LIS re-reads the size of the bucket on every
  iteration; the loop over the buckets runs from the last bucket to the first. No
  operation of the pass changes the number of buckets, so the outer loop is a recursion
  over the bucket indices taken at its start.
\<close>

fun sorting_bucket_encode :: "nat \<Rightarrow> SPECK3D \<Rightarrow> nat \<Rightarrow> nat \<Rightarrow> (RTNType \<times> SPECK3D) option" where
  "sorting_bucket_encode 0 st idx1 idx2 = None"
| "sorting_bucket_encode (Suc fuel) st idx1 idx2 =
     (if idx2 < length (m_LIS st ! idx1) then
        (case m_process_S_encode fuel st idx1 idx2 Dunno of
           None \<Rightarrow> None
         | Some (rtn, st1) \<Rightarrow>
             if \<not> QZ_TERM st1 \<and> rtn = BitBudgetMet then Some (rtn, st1)
             else sorting_bucket_encode fuel st1 idx1 (idx2 + 1))
      else Some (Good, st))"

text \<open>
  Fuel that suffices for one bucket: one unit per set of the bucket and one per level
  of recursion below a set, which is bounded by the sum of the dimensions.
\<close>

definition bucket_fuel :: "SPECK3D \<Rightarrow> nat \<Rightarrow> nat" where
  "bucket_fuel st idx1 = length (m_LIS st ! idx1) + m_dim_x st + m_dim_y st + m_dim_z st + 1"

fun sorting_LIS_encode :: "nat list \<Rightarrow> SPECK3D \<Rightarrow> (RTNType \<times> SPECK3D) option" where
  "sorting_LIS_encode [] st = Some (Good, st)"
| "sorting_LIS_encode (idx1 # rest) st =
     (case sorting_bucket_encode (bucket_fuel st idx1) st idx1 0 of
        None \<Rightarrow> None
      | Some (rtn, st1) \<Rightarrow>
          if rtn = BitBudgetMet then Some (rtn, st1)
          else sorting_LIS_encode rest st1)"

definition m_sorting_pass_encode :: "SPECK3D \<Rightarrow> (RTNType \<times> SPECK3D) option" where
  "m_sorting_pass_encode st =
     (let lip = m_LIP st;
          m_tmp_result = map (\<lambda>pixel_idx. if is_sig_at st pixel_idx
                                then (if m_sign_array st ! pixel_idx then sig_pos else sig_neg)
                                else m_false) lip;
          lsp_new = map (\<lambda>pixel_idx. if is_sig_at st pixel_idx then pixel_idx
                                       else m_u64_garbage_val) lip;
          lip1 = map (\<lambda>pixel_idx. if is_sig_at st pixel_idx then m_u64_garbage_val
                                    else pixel_idx) lip;
          st1 = st\<lparr> m_LSP_new := filter (\<lambda>v. v \<noteq> m_u64_garbage_val) lsp_new, m_LIP := lip1 \<rparr>
      in case emit_tmp_result_sorting m_tmp_result st1 of
           (rtn, st2) \<Rightarrow>
             if rtn = BitBudgetMet then Some (rtn, st2)
             else sorting_LIS_encode (rev [0 ..< length (m_LIS st2)]) st2)"

subsection \<open>Refinement pass of the encoder\<close>

text \<open>The loop over \<^verbatim>\<open>m_LSP_old\<close> on the path without a significance bitmap.\<close>

fun refine_LSP_old :: "nat list \<Rightarrow> real \<Rightarrow> real list \<Rightarrow> nat list \<times> real list" where
  "refine_LSP_old [] T c = ([], c)"
| "refine_LSP_old (pos # ps) T c =
     (if c ! pos \<ge> T
      then (case refine_LSP_old ps T (c[pos := c ! pos - T]) of (r, c1) \<Rightarrow> (m_true # r, c1))
      else (case refine_LSP_old ps T c of (r, c1) \<Rightarrow> (m_false # r, c1)))"

fun emit_tmp_result_refinement :: "nat list \<Rightarrow> SPECK3D \<Rightarrow> RTNType \<times> SPECK3D" where
  "emit_tmp_result_refinement [] st = (Good, st)"
| "emit_tmp_result_refinement (result # rs) st =
     (let st1 = push_back (result \<noteq> m_false) st
      in if budget_met st1 then (BitBudgetMet, st1)
         else emit_tmp_result_refinement rs st1)"

definition m_refinement_pass_encode :: "SPECK3D \<Rightarrow> RTNType \<times> SPECK3D" where
  "m_refinement_pass_encode st =
     (let T = m_threshold st;
          (m_tmp_result, st1) =
            (if m_sig_map_enabled st
             then (map (\<lambda>pos. if m_sig_map st ! pos then m_true else m_false) (m_LSP_old st), st)
             else (case refine_LSP_old (m_LSP_old st) T (the (m_coeff_buf st)) of
                     (r, c) \<Rightarrow> (r, st\<lparr> m_coeff_buf := Some c \<rparr>)))
      in case emit_tmp_result_refinement m_tmp_result st1 of
           (rtn, st2) \<Rightarrow>
             if rtn = BitBudgetMet then (rtn, st2)
             else
               (let c2 = (if m_sig_map_enabled st2
                          then fold (\<lambda>i c. if c ! i \<ge> T then c[i := c ! i - T] else c)
                                    [0 ..< m_coeff_len st2] (the (m_coeff_buf st2))
                          else fold (\<lambda>i c. c[i := c ! i - T])
                                    (m_LSP_new st2) (the (m_coeff_buf st2)));
                    st3 = st2\<lparr> m_coeff_buf := Some c2 \<rparr>
                in (Good, st3\<lparr> m_LSP_old := m_LSP_old st3 @ m_LSP_new st3, m_LSP_new := [] \<rparr>)))"

subsection \<open>Bitplane driver of the encoder\<close>

text \<open>
  The occupancy test that switches the significance bitmap on,
  \<^verbatim>\<open>m_LSP_old.size() > size_t(m_coeff_len * sigmap_threshold)\<close>, with the product taken
  from the library record. The driver below takes the test as a parameter, so that the
  coder with the bitmap can be compared with the coder that never builds it.
\<close>

definition sigmap_toggle :: "libm \<Rightarrow> nat \<Rightarrow> nat \<Rightarrow> bool" where
  "sigmap_toggle fp lsp_old_size coeff_len \<longleftrightarrow> lsp_old_size > sigmap_limit fp coeff_len"

definition build_sig_map :: "(nat \<Rightarrow> nat \<Rightarrow> bool) \<Rightarrow> SPECK3D \<Rightarrow> SPECK3D" where
  "build_sig_map toggle st =
     (if toggle (length (m_LSP_old st)) (m_coeff_len st) then
        (let stride_size = 64;
             num_of_strides = m_coeff_len st div stride_size
         in st\<lparr> m_sig_map := map (\<lambda>i. coeff st i \<ge> m_threshold st)
                                  ([0 ..< stride_size * num_of_strides] @
                                   [stride_size * num_of_strides ..< m_coeff_len st]),
                m_sig_map_enabled := True \<rparr>)
      else st\<lparr> m_sig_map_enabled := False \<rparr>)"

text \<open>
  The body of the \<^verbatim>\<open>for\<close> loop of \<^verbatim>\<open>encode\<close>. The flag of the result is \<open>False\<close>
  when the body leaves the loop with \<^verbatim>\<open>break\<close>, and \<open>True\<close> when it runs to its end,
  that is to the state after \<^verbatim>\<open>m_clean_LIS\<close>.
\<close>

definition encode_bitplane :: "(nat \<Rightarrow> nat \<Rightarrow> bool) \<Rightarrow> int \<Rightarrow> SPECK3D \<Rightarrow> (bool \<times> SPECK3D) option" where
  "encode_bitplane toggle current_qz_level st =
     (let st1 = build_sig_map toggle st
      in case m_sorting_pass_encode st1 of
           None \<Rightarrow> None
         | Some (rtn1, st2) \<Rightarrow>
             if \<not> QZ_TERM st2 \<and> rtn1 = BitBudgetMet then Some (False, st2)
             else
               (case m_refinement_pass_encode st2 of
                  (rtn2, st3) \<Rightarrow>
                    if \<not> QZ_TERM st3 \<and> rtn2 = BitBudgetMet then Some (False, st3)
                    else if QZ_TERM st3 \<and> current_qz_level \<le> m_qz_term_lev st3
                    then Some (False, st3)
                    else Some (True, m_clean_LIS (st3\<lparr> m_threshold := m_threshold st3 * 0.5 \<rparr>))))"

text \<open>
  The loop itself, with the number of iterations that remain and the value of
  \<^verbatim>\<open>current_qz_level\<close>.
\<close>

fun encode_loop :: "(nat \<Rightarrow> nat \<Rightarrow> bool) \<Rightarrow> nat \<Rightarrow> int \<Rightarrow> SPECK3D \<Rightarrow> SPECK3D option" where
  "encode_loop toggle 0 current_qz_level st = Some st"
| "encode_loop toggle (Suc n) current_qz_level st =
     (case encode_bitplane toggle current_qz_level st of
        None \<Rightarrow> None
      | Some (continue, st1) \<Rightarrow>
          if continue
          then encode_loop toggle n
                 (if QZ_TERM st1 then current_qz_level - 1 else current_qz_level) st1
          else Some st1)"

text \<open>The zero padding of the last byte under \<^verbatim>\<open>QZ_TERM\<close>.\<close>

definition pad_bit_buffer :: "SPECK3D \<Rightarrow> SPECK3D" where
  "pad_bit_buffer st =
     (if QZ_TERM st
      then st\<lparr> m_bit_buffer := m_bit_buffer st
                  @ replicate ((8 - length (m_bit_buffer st) mod 8) mod 8) False \<rparr>
      else st)"

text \<open>
  The part of \<^verbatim>\<open>encode\<close> between the readiness check and the computation of
  \<^verbatim>\<open>m_max_coeff_bits\<close>: the state with the lists initialised, the bit buffer cleared and
  the signs extracted, together with the largest magnitude.
\<close>

definition encode_setup :: "libm \<Rightarrow> SPECK3D \<Rightarrow> SPECK3D \<times> real" where
  "encode_setup fp st =
     (let st1 = st\<lparr> m_encode_mode := True \<rparr>;
          st2 = m_initialize_sets_lists fp st1;
          st3 = st2\<lparr> m_bit_buffer := [] \<rparr>
      in case make_coeff_positive (the (m_coeff_buf st3)) (m_coeff_len st3) of
           (buf, signs, max_coeff) \<Rightarrow>
             (st3\<lparr> m_coeff_buf := Some buf, m_sign_array := signs \<rparr>, max_coeff))"

text \<open>The state on entry to the loop, with \<^verbatim>\<open>m_max_coeff_bits\<close> and \<^verbatim>\<open>m_threshold\<close> set.\<close>

definition encode_start :: "libm \<Rightarrow> SPECK3D \<Rightarrow> SPECK3D" where
  "encode_start fp st =
     (case encode_setup fp st of
        (st4, max_coeff) \<Rightarrow>
          (let st5 = st4\<lparr> m_max_coeff_bits := floor_log2 fp max_coeff \<rparr>
           in st5\<lparr> m_threshold := pow2 (m_max_coeff_bits st5) \<rparr>))"

text \<open>\<^verbatim>\<open>encode\<close>, with the occupancy test as a parameter.\<close>

definition encode_with :: "libm \<Rightarrow> (nat \<Rightarrow> nat \<Rightarrow> bool) \<Rightarrow> SPECK3D \<Rightarrow> (RTNType \<times> SPECK3D) option" where
  "encode_with fp toggle st =
     (if \<not> m_ready_to_encode st then Some (Error, st)
      else
        (let st6 = encode_start fp st
         in if QZ_TERM st6 \<and> m_qz_term_lev st6 > m_max_coeff_bits st6
            then Some (InvalidParam, st6)
            else
              (case encode_loop toggle 128 (m_max_coeff_bits st6) st6 of
                 None \<Rightarrow> None
               | Some st7 \<Rightarrow> Some (Good, pad_bit_buffer st7))))"

definition encode :: "libm \<Rightarrow> SPECK3D \<Rightarrow> (RTNType \<times> SPECK3D) option" where
  "encode fp st = encode_with fp (sigmap_toggle fp) st"

subsection \<open>Sorting pass of the decoder\<close>

text \<open>
  \<^verbatim>\<open>m_bit_buffer[m_bit_idx++]\<close>: the bit under the cursor and the state with the cursor
  advanced; \<open>None\<close> when the cursor is outside of the bit buffer.
\<close>

definition read_bit :: "SPECK3D \<Rightarrow> (bool \<times> SPECK3D) option" where
  "read_bit st =
     (if m_bit_idx st < length (m_bit_buffer st)
      then Some (m_bit_buffer st ! m_bit_idx st, st\<lparr> m_bit_idx := m_bit_idx st + 1 \<rparr>)
      else None)"

definition m_process_P_decode :: "SPECK3D \<Rightarrow> nat \<Rightarrow> (RTNType \<times> SPECK3D) option" where
  "m_process_P_decode st loc =
     (if m_bit_idx st \<ge> m_budget st then Some (BitBudgetMet, st)
      else
        (case read_bit st of
           None \<Rightarrow> None
         | Some (b, st1) \<Rightarrow>
             if b then
               (let pixel_idx = m_LIP st1 ! loc
                in if m_bit_idx st1 \<ge> m_budget st1 then Some (BitBudgetMet, st1)
                   else
                     (case read_bit st1 of
                        None \<Rightarrow> None
                      | Some (sign, st2) \<Rightarrow>
                          (let st3 = (if \<not> sign
                                      then st2\<lparr> m_sign_array := (m_sign_array st2)[pixel_idx := False] \<rparr>
                                      else st2);
                               st4 = st3\<lparr> m_LIP := (m_LIP st3)[loc := m_u64_garbage_val] \<rparr>
                           in Some (Good, st4\<lparr> m_LSP_new := m_LSP_new st4 @ [pixel_idx] \<rparr>))))
             else Some (Good, st1)))"

fun m_process_S_decode :: "nat \<Rightarrow> SPECK3D \<Rightarrow> nat \<Rightarrow> nat \<Rightarrow> (RTNType \<times> SPECK3D) option"
and m_code_S_decode :: "nat \<Rightarrow> SPECK3D \<Rightarrow> nat \<Rightarrow> nat \<Rightarrow> (RTNType \<times> SPECK3D) option"
and code_S_decode_loop :: "nat \<Rightarrow> SPECK3D \<Rightarrow> SPECKSet3D list \<Rightarrow> (RTNType \<times> SPECK3D) option"
where
  "m_process_S_decode 0 st idx1 idx2 = None"
| "m_process_S_decode (Suc fuel) st idx1 idx2 =
     (if m_bit_idx st \<ge> m_budget st then Some (BitBudgetMet, st)
      else
        (case read_bit st of
           None \<Rightarrow> None
         | Some (b, st1) \<Rightarrow>
             (let set_signif = (if b then Sig else Insig);
                  st2 = LIS_update idx1 idx2 (\<lambda>s. s\<lparr> signif := set_signif \<rparr>) st1
              in if set_signif = Sig then
                   (case m_code_S_decode fuel st2 idx1 idx2 of
                      None \<Rightarrow> None
                    | Some (rtn, st3) \<Rightarrow>
                        if rtn = BitBudgetMet then Some (BitBudgetMet, st3)
                        else Some (Good, LIS_update idx1 idx2 (\<lambda>s. s\<lparr> type := Garbage \<rparr>) st3))
                 else Some (Good, st2))))"
| "m_code_S_decode fuel st idx1 idx2 =
     code_S_decode_loop fuel st (m_partition_S_XYZ (m_LIS st ! idx1 ! idx2))"
| "code_S_decode_loop fuel st [] = Some (Good, st)"
| "code_S_decode_loop fuel st (s # rest) =
     (if is_pixel s then
        (let st1 = st\<lparr> m_LIP := m_LIP st @ [raster_index st s] \<rparr>
         in case m_process_P_decode st1 (length (m_LIP st1) - 1) of
              None \<Rightarrow> None
            | Some (rtn, st2) \<Rightarrow>
                if rtn = BitBudgetMet then Some (BitBudgetMet, st2)
                else code_S_decode_loop fuel st2 rest)
      else if \<not> is_empty s then
        (let newidx1 = part_level s
         in if newidx1 \<ge> length (m_LIS st) then None
            else
              (let st1 = st\<lparr> m_LIS := LIS_emplace_back s (m_LIS st) \<rparr>;
                   newidx2 = length (m_LIS st1 ! newidx1) - 1
               in case m_process_S_decode fuel st1 newidx1 newidx2 of
                    None \<Rightarrow> None
                  | Some (rtn, st2) \<Rightarrow>
                      if rtn = BitBudgetMet then Some (BitBudgetMet, st2)
                      else code_S_decode_loop fuel st2 rest))
      else code_S_decode_loop fuel st rest)"

text \<open>The loop over the LIP: its bound does not change, a slot is only overwritten.\<close>

fun sorting_LIP_decode :: "nat list \<Rightarrow> SPECK3D \<Rightarrow> (RTNType \<times> SPECK3D) option" where
  "sorting_LIP_decode [] st = Some (Good, st)"
| "sorting_LIP_decode (i # rest) st =
     (case m_process_P_decode st i of
        None \<Rightarrow> None
      | Some (rtn, st1) \<Rightarrow>
          if rtn = BitBudgetMet then Some (rtn, st1)
          else sorting_LIP_decode rest st1)"

fun sorting_bucket_decode :: "nat \<Rightarrow> SPECK3D \<Rightarrow> nat \<Rightarrow> nat \<Rightarrow> (RTNType \<times> SPECK3D) option" where
  "sorting_bucket_decode 0 st idx1 idx2 = None"
| "sorting_bucket_decode (Suc fuel) st idx1 idx2 =
     (if idx2 < length (m_LIS st ! idx1) then
        (case m_process_S_decode fuel st idx1 idx2 of
           None \<Rightarrow> None
         | Some (rtn, st1) \<Rightarrow>
             if rtn = BitBudgetMet then Some (rtn, st1)
             else sorting_bucket_decode fuel st1 idx1 (idx2 + 1))
      else Some (Good, st))"

fun sorting_LIS_decode :: "nat list \<Rightarrow> SPECK3D \<Rightarrow> (RTNType \<times> SPECK3D) option" where
  "sorting_LIS_decode [] st = Some (Good, st)"
| "sorting_LIS_decode (idx1 # rest) st =
     (case sorting_bucket_decode (bucket_fuel st idx1) st idx1 0 of
        None \<Rightarrow> None
      | Some (rtn, st1) \<Rightarrow>
          if rtn = BitBudgetMet then Some (rtn, st1)
          else sorting_LIS_decode rest st1)"

definition m_sorting_pass_decode :: "SPECK3D \<Rightarrow> (RTNType \<times> SPECK3D) option" where
  "m_sorting_pass_decode st =
     (case sorting_LIP_decode [0 ..< length (m_LIP st)] st of
        None \<Rightarrow> None
      | Some (rtn, st1) \<Rightarrow>
          if rtn = BitBudgetMet then Some (rtn, st1)
          else sorting_LIS_decode (rev [0 ..< length (m_LIS st1)]) st1)"

subsection \<open>Refinement pass and driver of the decoder\<close>

text \<open>Subtraction of two \<^verbatim>\<open>size_t\<close> values, which wraps around below zero.\<close>

definition size_t_sub :: "nat \<Rightarrow> nat \<Rightarrow> nat" where
  "size_t_sub a b = (if b \<le> a then a - b else a + 2 ^ 64 - b)"

fun refine_decode_loop :: "nat list \<Rightarrow> SPECK3D \<Rightarrow> SPECK3D option" where
  "refine_decode_loop [] st = Some st"
| "refine_decode_loop (i # rest) st =
     (if m_bit_idx st + i < length (m_bit_buffer st) then
        (let pos = m_LSP_old st ! i;
             c = the (m_coeff_buf st);
             d = (if m_bit_buffer st ! (m_bit_idx st + i)
                  then m_threshold st * 0.5 else m_threshold st * (- 0.5))
         in refine_decode_loop rest (st\<lparr> m_coeff_buf := Some (c[pos := c ! pos + d]) \<rparr>))
      else None)"

definition m_refinement_pass_decode :: "SPECK3D \<Rightarrow> (RTNType \<times> SPECK3D) option" where
  "m_refinement_pass_decode st =
     (let num_bits = min (size_t_sub (m_budget st) (m_bit_idx st)) (length (m_LSP_old st))
      in case refine_decode_loop [0 ..< num_bits] st of
           None \<Rightarrow> None
         | Some st1 \<Rightarrow>
             (let st2 = st1\<lparr> m_bit_idx := m_bit_idx st1 + num_bits \<rparr>
              in if m_bit_idx st2 \<ge> m_budget st2 then Some (BitBudgetMet, st2)
                 else
                   (let one_half_T = m_threshold st2 * 1.5;
                        c = fold (\<lambda>idx c. c[idx := one_half_T]) (m_LSP_new st2)
                                 (the (m_coeff_buf st2));
                        st3 = st2\<lparr> m_coeff_buf := Some c \<rparr>
                    in Some (Good, st3\<lparr> m_LSP_old := m_LSP_old st3 @ m_LSP_new st3,
                                        m_LSP_new := [] \<rparr>))))"

text \<open>The body of the loop of \<^verbatim>\<open>decode\<close>, with the same flag as for the encoder.\<close>

definition decode_bitplane :: "SPECK3D \<Rightarrow> (bool \<times> SPECK3D) option" where
  "decode_bitplane st =
     (case m_sorting_pass_decode st of
        None \<Rightarrow> None
      | Some (rtn1, st1) \<Rightarrow>
          if rtn1 = BitBudgetMet then Some (False, st1)
          else
            (case m_refinement_pass_decode st1 of
               None \<Rightarrow> None
             | Some (rtn2, st2) \<Rightarrow>
                 if rtn2 = BitBudgetMet then Some (False, st2)
                 else Some (True, m_clean_LIS (st2\<lparr> m_threshold := m_threshold st2 * 0.5 \<rparr>))))"

fun decode_loop :: "nat \<Rightarrow> SPECK3D \<Rightarrow> SPECK3D option" where
  "decode_loop 0 st = Some st"
| "decode_loop (Suc n) st =
     (case decode_bitplane st of
        None \<Rightarrow> None
      | Some (continue, st1) \<Rightarrow>
          if continue then decode_loop n st1 else Some st1)"

definition decode :: "libm \<Rightarrow> SPECK3D \<Rightarrow> (RTNType \<times> SPECK3D) option" where
  "decode fp st =
     (if \<not> m_ready_to_decode st then Some (Error, st)
      else
        (let st1 = st\<lparr> m_encode_mode := False \<rparr>;
             st2 = (if m_budget st1 = 0 \<or> m_budget st1 > length (m_bit_buffer st1)
                    then st1\<lparr> m_budget := length (m_bit_buffer st1) \<rparr> else st1);
             st3 = st2\<lparr> m_coeff_buf := Some (replicate (m_coeff_len st2) 0),
                        m_sign_array := replicate (m_coeff_len st2) True \<rparr>;
             st4 = m_initialize_sets_lists fp st3;
             st5 = st4\<lparr> m_bit_idx := 0, m_threshold := pow2 (m_max_coeff_bits st4) \<rparr>
         in case decode_loop 128 st5 of
              None \<Rightarrow> None
            | Some st6 \<Rightarrow>
                (let c1 = fold (\<lambda>idx c. c[idx := m_threshold st6 * 1.5]) (m_LSP_new st6)
                               (the (m_coeff_buf st6));
                     c2 = fold (\<lambda>i c. if \<not> m_sign_array st6 ! i then c[i := - (c ! i)] else c)
                               [0 ..< length (m_sign_array st6)] c1
                 in Some (Good, st6\<lparr> m_coeff_buf := Some c2 \<rparr>))))"

section \<open>Notions used to state the properties\<close>

text \<open>Membership of a grid point in the cuboid of a set.\<close>

definition in_set3d :: "SPECKSet3D \<Rightarrow> nat \<times> nat \<times> nat \<Rightarrow> bool" where
  "in_set3d s p = (case p of (x, y, z) \<Rightarrow>
      start_x s \<le> x \<and> x < start_x s + length_x s \<and>
      start_y s \<le> y \<and> y < start_y s + length_y s \<and>
      start_z s \<le> z \<and> z < start_z s + length_z s)"

subsection \<open>Concrete inputs\<close>

text \<open>
  A volume of \<open>2 \<times> 2 \<times> 2\<close> coefficients at threshold 1 whose only significant
  coefficient sits at \<open>(x, y, z) = (1, 0, 1)\<close>, with the whole volume as the one set of
  the LIS.
\<close>

definition ex_whole :: SPECKSet3D where
  "ex_whole = default_set\<lparr> length_x := 2, length_y := 2, length_z := 2 \<rparr>"

definition ex_cube :: SPECK3D where
  "ex_cube = \<lparr> QZ_TERM = False, m_dim_x = 2, m_dim_y = 2, m_dim_z = 2, m_coeff_len = 8,
       m_coeff_buf = Some [0, 0, 0, 0, 0, 1, 0, 0], m_max_coeff_bits = 0,
       m_bit_buffer = [], m_sign_array = replicate 8 True, m_budget = 512, m_bit_idx = 0,
       m_threshold = 1, m_encode_mode = True, m_sig_map = [], m_sig_map_enabled = False,
       m_qz_term_lev = 0, m_LIS = [[ex_whole], [], [], []], m_LIP = [],
       m_LSP_new = [], m_LSP_old = [] \<rparr>"




text \<open>The largest magnitude found by \<^verbatim>\<open>make_coeff_positive\<close> on the input of \<^verbatim>\<open>encode\<close>.\<close>

definition max_coeff_of :: "SPECK3D \<Rightarrow> real" where
  "max_coeff_of st = snd (snd (make_coeff_positive (the (m_coeff_buf st)) (m_coeff_len st)))"

subsection \<open>Relations between the states of a run\<close>

definition same_config :: "SPECK3D \<Rightarrow> SPECK3D \<Rightarrow> bool" where
  "same_config st st' \<longleftrightarrow>
     QZ_TERM st' = QZ_TERM st \<and> m_budget st' = m_budget st \<and>
     m_dim_x st' = m_dim_x st \<and> m_dim_y st' = m_dim_y st \<and> m_dim_z st' = m_dim_z st \<and>
     m_coeff_len st' = m_coeff_len st \<and> m_qz_term_lev st' = m_qz_term_lev st \<and>
     m_max_coeff_bits st' = m_max_coeff_bits st \<and> m_encode_mode st' = m_encode_mode st \<and>
     length (m_LIS st') = length (m_LIS st)"

definition sort_frame :: "SPECK3D \<Rightarrow> SPECK3D \<Rightarrow> bool" where
  "sort_frame st st' \<longleftrightarrow>
     same_config st st' \<and> m_coeff_buf st' = m_coeff_buf st \<and>
     m_threshold st' = m_threshold st \<and> m_sig_map st' = m_sig_map st \<and>
     m_sig_map_enabled st' = m_sig_map_enabled st \<and> m_LSP_old st' = m_LSP_old st"

definition enc_frame :: "SPECK3D \<Rightarrow> SPECK3D \<Rightarrow> bool" where
  "enc_frame st st' \<longleftrightarrow>
     sort_frame st st' \<and> m_sign_array st' = m_sign_array st \<and> m_bit_idx st' = m_bit_idx st \<and>
     prefix (m_bit_buffer st) (m_bit_buffer st')"

definition budget_ok :: "RTNType \<Rightarrow> SPECK3D \<Rightarrow> SPECK3D \<Rightarrow> bool" where
  "budget_ok r st st' \<longleftrightarrow>
     (r = Good \<or> r = BitBudgetMet) \<and> (QZ_TERM st \<longrightarrow> r = Good) \<and>
     (\<not> QZ_TERM st \<longrightarrow> length (m_bit_buffer st) < m_budget st \<longrightarrow>
        (r = Good \<longrightarrow> length (m_bit_buffer st') < m_budget st) \<and>
        (r = BitBudgetMet \<longrightarrow> length (m_bit_buffer st') = m_budget st))"

definition P_sig :: "SPECK3D \<Rightarrow> nat \<Rightarrow> SigType \<Rightarrow> bool" where
  "P_sig st loc sig = (if sig = Dunno then is_sig_at st (m_LIP st ! loc) else sig = Sig)"

definition P_move :: "SPECK3D \<Rightarrow> nat \<Rightarrow> SPECK3D" where
  "P_move st loc =
     (push_back (m_sign_array st ! (m_LIP st ! loc)) (push_back True st))
       \<lparr> m_LSP_new := m_LSP_new st @ [m_LIP st ! loc],
         m_LIP := (m_LIP st)[loc := m_u64_garbage_val] \<rparr>"

definition S_found :: "SPECK3D \<Rightarrow> nat \<Rightarrow> nat \<Rightarrow> SigType \<Rightarrow> (nat \<times> nat \<times> nat) option" where
  "S_found st idx1 idx2 sig =
     (if sig = Dunno then m_decide_significance st (m_LIS st ! idx1 ! idx2) else None)"

definition S_signif :: "SPECK3D \<Rightarrow> nat \<Rightarrow> nat \<Rightarrow> SigType \<Rightarrow> SigType" where
  "S_signif st idx1 idx2 sig =
     (if sig = Dunno then (if S_found st idx1 idx2 sig = None then Insig else Sig) else sig)"

definition S_hints :: "SPECK3D \<Rightarrow> nat \<Rightarrow> nat \<Rightarrow> SigType \<Rightarrow> SigType list" where
  "S_hints st idx1 idx2 sig =
     (case S_found st idx1 idx2 sig of
        Some xyz \<Rightarrow> subset_sigs_of (sub_i_of (m_LIS st ! idx1 ! idx2) xyz)
      | None \<Rightarrow> replicate 8 Dunno)"

definition S_pushed :: "SPECK3D \<Rightarrow> nat \<Rightarrow> nat \<Rightarrow> SigType \<Rightarrow> SPECK3D" where
  "S_pushed st idx1 idx2 sig =
     push_back (S_signif st idx1 idx2 sig = Sig)
       (LIS_update idx1 idx2 (\<lambda>s. s\<lparr> signif := S_signif st idx1 idx2 sig \<rparr>) st)"

definition LIP_pushed :: "SPECK3D \<Rightarrow> SPECKSet3D \<Rightarrow> SPECK3D" where
  "LIP_pushed st s = st\<lparr> m_LIP := m_LIP st @ [raster_index st s] \<rparr>"

definition LIS_pushed :: "SPECK3D \<Rightarrow> SPECKSet3D \<Rightarrow> SPECK3D" where
  "LIS_pushed st s = st\<lparr> m_LIS := LIS_emplace_back s (m_LIS st) \<rparr>"

definition enc_step :: "RTNType \<Rightarrow> SPECK3D \<Rightarrow> SPECK3D \<Rightarrow> bool" where
  "enc_step r st st' \<longleftrightarrow> enc_frame st st' \<and> budget_ok r st st'"

fun push_bits :: "bool list \<Rightarrow> SPECK3D \<Rightarrow> RTNType \<times> SPECK3D" where
  "push_bits [] st = (Good, st)"
| "push_bits (b # bs) st =
     (if budget_met (push_back b st) then (BitBudgetMet, push_back b st)
      else push_bits bs (push_back b st))"

definition tag_bits :: "nat \<Rightarrow> bool list" where
  "tag_bits e = (if e = sig_pos then [True, True] else if e = sig_neg then [True, False] else [False])"

definition LIP_bits :: "SPECK3D \<Rightarrow> bool list" where
  "LIP_bits st =
     concat (map (\<lambda>pixel_idx. if is_sig_at st pixel_idx then [True, m_sign_array st ! pixel_idx]
                                else [False]) (m_LIP st))"

definition LIP_scan :: "SPECK3D \<Rightarrow> SPECK3D" where
  "LIP_scan st =
     st\<lparr> m_LSP_new := filter (\<lambda>v. v \<noteq> m_u64_garbage_val)
                         (map (\<lambda>pixel_idx. if is_sig_at st pixel_idx then pixel_idx
                                            else m_u64_garbage_val) (m_LIP st)),
         m_LIP := map (\<lambda>pixel_idx. if is_sig_at st pixel_idx then m_u64_garbage_val
                                    else pixel_idx) (m_LIP st) \<rparr>"

definition pass_frame :: "SPECK3D \<Rightarrow> SPECK3D \<Rightarrow> bool" where
  "pass_frame st st' \<longleftrightarrow>
     same_config st st' \<and> m_sign_array st' = m_sign_array st \<and> m_bit_idx st' = m_bit_idx st \<and>
     prefix (m_bit_buffer st) (m_bit_buffer st')"

definition pass_step :: "RTNType \<Rightarrow> SPECK3D \<Rightarrow> SPECK3D \<Rightarrow> bool" where
  "pass_step r st st' \<longleftrightarrow> pass_frame st st' \<and> budget_ok r st st'"

definition refine_bits :: "SPECK3D \<Rightarrow> bool list" where
  "refine_bits st =
     (if m_sig_map_enabled st then map (\<lambda>pos. m_sig_map st ! pos) (m_LSP_old st)
      else map (\<lambda>r. r \<noteq> m_false)
             (fst (refine_LSP_old (m_LSP_old st) (m_threshold st) (the (m_coeff_buf st)))))"

definition refine_old_state :: "SPECK3D \<Rightarrow> SPECK3D" where
  "refine_old_state st =
     (if m_sig_map_enabled st then st
      else st\<lparr> m_coeff_buf :=
                 Some (snd (refine_LSP_old (m_LSP_old st) (m_threshold st) (the (m_coeff_buf st)))) \<rparr>)"

definition refine_finish :: "SPECK3D \<Rightarrow> SPECK3D" where
  "refine_finish st2 =
     (let T = m_threshold st2;
          c2 = (if m_sig_map_enabled st2
                then fold (\<lambda>i c. if c ! i \<ge> T then c[i := c ! i - T] else c)
                          [0 ..< m_coeff_len st2] (the (m_coeff_buf st2))
                else fold (\<lambda>i c. c[i := c ! i - T])
                          (m_LSP_new st2) (the (m_coeff_buf st2)))
      in st2\<lparr> m_coeff_buf := Some c2, m_LSP_old := m_LSP_old st2 @ m_LSP_new st2,
              m_LSP_new := [] \<rparr>)"

definition next_bitplane :: "SPECK3D \<Rightarrow> SPECK3D" where
  "next_bitplane st3 = m_clean_LIS (st3\<lparr> m_threshold := m_threshold st3 * 0.5 \<rparr>)"

fun full_bitplanes :: "(nat \<Rightarrow> nat \<Rightarrow> bool) \<Rightarrow> nat \<Rightarrow> int \<Rightarrow> SPECK3D \<Rightarrow> SPECK3D option" where
  "full_bitplanes toggle 0 current_qz_level st = Some st"
| "full_bitplanes toggle (Suc n) current_qz_level st =
     (case encode_bitplane toggle current_qz_level st of
        None \<Rightarrow> None
      | Some (continue, st1) \<Rightarrow>
          if continue
          then full_bitplanes toggle n
                 (if QZ_TERM st1 then current_qz_level - 1 else current_qz_level) st1
          else None)"

definition plane_ok :: "bool \<Rightarrow> SPECK3D \<Rightarrow> SPECK3D \<Rightarrow> bool" where
  "plane_ok continue st st' \<longleftrightarrow>
     pass_frame st st' \<and>
     (\<not> QZ_TERM st \<longrightarrow> length (m_bit_buffer st) < m_budget st \<longrightarrow>
        (continue \<longrightarrow> length (m_bit_buffer st') < m_budget st) \<and>
        (\<not> continue \<longrightarrow> length (m_bit_buffer st') = m_budget st))"

definition need :: "SPECKSet3D \<Rightarrow> nat" where
  "need s = length_x s + length_y s + length_z s"

definition level_ok :: "nat \<Rightarrow> nat \<Rightarrow> SPECKSet3D \<Rightarrow> bool" where
  "level_ok nb dsum s \<longleftrightarrow>
     part_level s + num_of_partitions (length_x s) + num_of_partitions (length_y s)
       + num_of_partitions (length_z s) < nb
     \<and> need s \<le> dsum"

definition dim_sum :: "SPECK3D \<Rightarrow> nat" where
  "dim_sum st = m_dim_x st + m_dim_y st + m_dim_z st"

definition LIS_ok :: "SPECK3D \<Rightarrow> bool" where
  "LIS_ok st \<longleftrightarrow>
     (\<forall>k < length (m_LIS st). \<forall>s \<in> set (m_LIS st ! k).
        part_level s = k \<and> level_ok (length (m_LIS st)) (dim_sum st) s)"

definition lis_inv :: "SPECK3D \<Rightarrow> SPECK3D \<Rightarrow> bool" where
  "lis_inv st st' \<longleftrightarrow>
     LIS_ok st' \<and> length (m_LIS st') = length (m_LIS st) \<and> dim_sum st' = dim_sum st"

definition keeps :: "nat \<Rightarrow> SPECK3D \<Rightarrow> SPECK3D \<Rightarrow> bool" where
  "keeps k st st' \<longleftrightarrow>
     lis_inv st st' \<and> (\<forall>j\<le>k. length (m_LIS st' ! j) = length (m_LIS st ! j))"



section \<open>The significance oracle and its hints\<close>

lemma first_some_upt:
  "first_some f [a ..< b] = Some r \<Longrightarrow>
     \<exists>k. a \<le> k \<and> k < b \<and> f k = Some r \<and> (\<forall>j. a \<le> j \<and> j < k \<longrightarrow> f j = None)"
proof (induction "b - a" arbitrary: a)
  case 0
  then show ?case by simp
next
  case (Suc n)
  then have ab: "a < b" by simp
  then have upt: "[a ..< b] = a # [Suc a ..< b]" by (simp add: upt_rec)
  show ?case
  proof (cases "f a")
    case (Some v)
    with Suc.prems upt have "v = r" by simp
    with Some ab show ?thesis by (intro exI[of _ a]) auto
  next
    case None
    with Suc.prems upt have "first_some f [Suc a ..< b] = Some r" by simp
    moreover from Suc.hyps have "n = b - Suc a" by simp
    ultimately obtain k where k: "Suc a \<le> k" "k < b" "f k = Some r"
        "\<forall>j. Suc a \<le> j \<and> j < k \<longrightarrow> f j = None"
      using Suc.hyps(1) by blast
    have "\<forall>j. a \<le> j \<and> j < k \<longrightarrow> f j = None"
    proof (intro allI impI)
      fix j assume "a \<le> j \<and> j < k"
      then show "f j = None" using None k(4) by (cases "j = a") auto
    qed
    with k show ?thesis by (intro exI[of _ k]) auto
  qed
qed

lemma first_some_None: "first_some f xs = None \<Longrightarrow> x \<in> set xs \<Longrightarrow> f x = None"
  by (induction xs) (auto split: option.splits)

lemma decide_sig_char:
  assumes "m_decide_significance st s = Some (dx, dy, dz)"
  shows "dx < length_x s \<and> dy < length_y s \<and> dz < length_z s
       \<and> is_sig_at st ((start_z s + dz) * (m_dim_x st * m_dim_y st) + (start_y s + dy) * m_dim_x st + (start_x s + dx))
       \<and> (\<forall>x y z. in_set3d s (x, y, z) \<and> z < start_z s + dz \<longrightarrow>
             \<not> is_sig_at st (z * (m_dim_x st * m_dim_y st) + y * m_dim_x st + x))"
proof -
  let ?fx = "\<lambda>z y x. if is_sig_at st (z * (m_dim_x st * m_dim_y st) + y * m_dim_x st + x)
            then Some (x - start_x s, y - start_y s, z - start_z s) else None"
  let ?fy = "\<lambda>z y. first_some (?fx z y) [start_x s ..< start_x s + length_x s]"
  let ?fz = "\<lambda>z. first_some (?fy z) [start_y s ..< start_y s + length_y s]"
  from assms have "first_some ?fz [start_z s ..< start_z s + length_z s] = Some (dx, dy, dz)"
    by (simp add: m_decide_significance_def Let_def)
  from first_some_upt[OF this] obtain z where z: "start_z s \<le> z" "z < start_z s + length_z s"
    "?fz z = Some (dx, dy, dz)" "\<forall>j. start_z s \<le> j \<and> j < z \<longrightarrow> ?fz j = None" by blast
  from first_some_upt[OF z(3)] obtain y where y: "start_y s \<le> y" "y < start_y s + length_y s"
    "?fy z y = Some (dx, dy, dz)" by blast
  from first_some_upt[OF y(3)] obtain x where x: "start_x s \<le> x" "x < start_x s + length_x s"
    "?fx z y x = Some (dx, dy, dz)" by blast
  from x(3) have sig: "is_sig_at st (z * (m_dim_x st * m_dim_y st) + y * m_dim_x st + x)"
    and eq: "dx = x - start_x s" "dy = y - start_y s" "dz = z - start_z s"
    by (auto split: if_splits)
  have xe: "start_x s + dx = x" "start_y s + dy = y" "start_z s + dz = z"
    using eq x y z by auto
  have none: "\<not> is_sig_at st (z' * (m_dim_x st * m_dim_y st) + y' * m_dim_x st + x')"
    if "in_set3d s (x', y', z')" "z' < start_z s + dz" for x' y' z'
  proof -
    from that xe have "start_z s \<le> z'" "z' < z" by (auto simp: in_set3d_def)
    with z(4) have "?fz z' = None" by blast
    moreover from that have "y' \<in> set [start_y s ..< start_y s + length_y s]"
      by (auto simp: in_set3d_def)
    ultimately have "?fy z' y' = None" by (rule first_some_None)
    moreover from that have "x' \<in> set [start_x s ..< start_x s + length_x s]"
      by (auto simp: in_set3d_def)
    ultimately have "?fx z' y' x' = None" by (rule first_some_None)
    then show ?thesis by (auto split: if_splits)
  qed
  show ?thesis using x y z sig xe eq none by auto
qed

lemma partition_XYZ_length: "length (m_partition_S_XYZ s) = 8"
  by (simp add: m_partition_S_XYZ_def Let_def)

lemma in_child_iff:
  assumes "j < 8"
  shows "in_set3d (m_partition_S_XYZ s ! j) (x, y, z) \<longleftrightarrow>
     in_set3d s (x, y, z)
     \<and> ((x < start_x s + (length_x s - length_x s div 2)) = (j mod 2 = 0))
     \<and> ((y < start_y s + (length_y s - length_y s div 2)) = ((j div 2) mod 2 = 0))
     \<and> ((z < start_z s + (length_z s - length_z s div 2)) = (j div 4 = 0))"
proof -
  from assms consider "j = 0" | "j = 1" | "j = 2" | "j = 3" | "j = 4" | "j = 5" | "j = 6" | "j = 7"
    by linarith
  then show ?thesis
    by cases (auto simp: m_partition_S_XYZ_def Let_def in_set3d_def default_set_def)
qed

text \<open>
  C5. When the oracle reports a set significant with the offset \<open>(dx, dy, dz)\<close> of the
  first significant coefficient of its scan (z outermost, x innermost), the index
  \<open>bx + 2 * by + 4 * bz\<close> computed in \<^verbatim>\<open>m_process_S_encode\<close> is the index of the one
  child of \<^verbatim>\<open>m_partition_S_XYZ\<close> that contains this coefficient, the coefficient is
  significant, and when the index is at least 4 no coefficient of the children 0 to 3
  passes the significance test.
\<close>

theorem oracle_hint_sound:
  assumes "m_decide_significance st s = Some (dx, dy, dz)"
  shows "sub_i_of s (dx, dy, dz) < 8
     \<and> is_sig_at st ((start_z s + dz) * (m_dim_x st * m_dim_y st)
                      + (start_y s + dy) * m_dim_x st + (start_x s + dx))
     \<and> (\<forall>j < 8. in_set3d (m_partition_S_XYZ s ! j) (start_x s + dx, start_y s + dy, start_z s + dz)
                  \<longleftrightarrow> j = sub_i_of s (dx, dy, dz))
     \<and> (sub_i_of s (dx, dy, dz) \<ge> 4 \<longrightarrow>
          (\<forall>j < 4. \<forall>x y z. in_set3d (m_partition_S_XYZ s ! j) (x, y, z) \<longrightarrow>
               \<not> is_sig_at st (z * (m_dim_x st * m_dim_y st) + y * m_dim_x st + x)))"
proof -
  note c = decide_sig_char[OF assms]
  have lt8: "sub_i_of s (dx, dy, dz) < 8" by (simp add: sub_i_of_def)
  have ins: "in_set3d s (start_x s + dx, start_y s + dy, start_z s + dz)"
    using c by (simp add: in_set3d_def)
  have uniq: "in_set3d (m_partition_S_XYZ s ! j) (start_x s + dx, start_y s + dy, start_z s + dz)
                  \<longleftrightarrow> j = sub_i_of s (dx, dy, dz)" if "j < 8" for j
  proof -
    have bits: "j = sub_i_of s (dx, dy, dz) \<longleftrightarrow>
        ((dx < length_x s - length_x s div 2) = (j mod 2 = 0))
      \<and> ((dy < length_y s - length_y s div 2) = ((j div 2) mod 2 = 0))
      \<and> ((dz < length_z s - length_z s div 2) = (j div 4 = 0))"
    proof -
      from that consider "j = 0" | "j = 1" | "j = 2" | "j = 3" | "j = 4" | "j = 5" | "j = 6" | "j = 7"
        by linarith
      then show ?thesis by cases (simp_all add: sub_i_of_def)
    qed
    have ex: "(start_x s + dx < start_x s + (length_x s - length_x s div 2))
                = (dx < length_x s - length_x s div 2)" by arith
    have ey: "(start_y s + dy < start_y s + (length_y s - length_y s div 2))
                = (dy < length_y s - length_y s div 2)" by arith
    have ez: "(start_z s + dz < start_z s + (length_z s - length_z s div 2))
                = (dz < length_z s - length_z s div 2)" by arith
    show ?thesis
      unfolding in_child_iff[OF that] bits ex ey ez using ins by simp
  qed
  have low: "\<not> is_sig_at st (z * (m_dim_x st * m_dim_y st) + y * m_dim_x st + x)"
    if "sub_i_of s (dx, dy, dz) \<ge> 4" "j < 4" "in_set3d (m_partition_S_XYZ s ! j) (x, y, z)" for j x y z
  proof -
    from that(1) have "\<not> dz < length_z s - length_z s div 2"
      by (auto simp: sub_i_of_def split: if_splits)
    moreover from that(2,3) have "in_set3d s (x, y, z)" "z < start_z s + (length_z s - length_z s div 2)"
      by (auto simp: in_child_iff)
    ultimately have "in_set3d s (x, y, z) \<and> z < start_z s + dz" by auto
    with c show ?thesis by blast
  qed
  show ?thesis using lt8 c uniq low by blast
qed

lemma ex_decide: "m_decide_significance ex_cube ex_whole = Some (1, 0, 1)"
  by (simp add: m_decide_significance_def ex_cube_def ex_whole_def default_set_def is_sig_at_def
        coeff_def Let_def upt_rec)

theorem oracle_hint_sound_witness:
  "sub_i_of ex_whole (1, 0, 1) = 5
   \<and> in_set3d (m_partition_S_XYZ ex_whole ! 5) (1, 0, 1)
   \<and> \<not> in_set3d (m_partition_S_XYZ ex_whole ! 4) (1, 0, 1)
   \<and> is_sig_at ex_cube 5
   \<and> \<not> is_sig_at ex_cube 3"
proof -
  note h = oracle_hint_sound[OF ex_decide]
  have five: "sub_i_of ex_whole (1, 0, 1) = 5"
    by (simp add: sub_i_of_def ex_whole_def default_set_def)
  have st: "start_x ex_whole = 0" "start_y ex_whole = 0" "start_z ex_whole = 0"
    "m_dim_x ex_cube = 2" "m_dim_y ex_cube = 2"
    by (simp_all add: ex_whole_def default_set_def ex_cube_def)
  from h have sig: "is_sig_at ex_cube ((0 + 1) * (2 * 2) + (0 + 0) * 2 + (0 + 1))"
    unfolding st by (rule conjunct1[OF conjunct2])
  from h have uq: "\<forall>j<8. in_set3d (m_partition_S_XYZ ex_whole ! j) (0 + 1, 0 + 0, 0 + 1) \<longleftrightarrow> j = 5"
    unfolding st five by (rule conjunct1[OF conjunct2[OF conjunct2]])
  have "(5::nat) < 8" "(4::nat) < 8" by simp_all
  with uq have child: "in_set3d (m_partition_S_XYZ ex_whole ! 5) (0 + 1, 0 + 0, 0 + 1)"
    "\<not> in_set3d (m_partition_S_XYZ ex_whole ! 4) (0 + 1, 0 + 0, 0 + 1)"
    by (blast, auto)
  from h have "4 \<le> (5::nat) \<longrightarrow> (\<forall>j<4. \<forall>x y z. in_set3d (m_partition_S_XYZ ex_whole ! j) (x, y, z) \<longrightarrow>
      \<not> is_sig_at ex_cube (z * (2 * 2) + y * 2 + x))"
    unfolding st five by (rule conjunct2[OF conjunct2[OF conjunct2]])
  then have low: "\<forall>j<4. \<forall>x y z. in_set3d (m_partition_S_XYZ ex_whole ! j) (x, y, z) \<longrightarrow>
      \<not> is_sig_at ex_cube (z * (2 * 2) + y * 2 + x)" by simp
  have "(3::nat) < 4" by simp
  with low have "in_set3d (m_partition_S_XYZ ex_whole ! 3) (1, 1, 0) \<longrightarrow>
      \<not> is_sig_at ex_cube (0 * (2 * 2) + 1 * 2 + 1)"
    by blast
  moreover have "in_set3d (m_partition_S_XYZ ex_whole ! 3) (1, 1, 0)"
    by (simp add: m_partition_S_XYZ_def Let_def in_set3d_def ex_whole_def default_set_def)
  ultimately have "\<not> is_sig_at ex_cube 3" by (simp add: numeral_3_eq_3)
  with five sig child show ?thesis by simp
qed

lemma same_config_refl [simp]: "same_config st st" by (simp add: same_config_def)
lemma sort_frame_refl [simp]: "sort_frame st st" by (simp add: sort_frame_def)
lemma enc_frame_refl [simp]: "enc_frame st st" by (simp add: enc_frame_def)

lemma same_config_trans: "same_config a b \<Longrightarrow> same_config b c \<Longrightarrow> same_config a c"
  by (simp add: same_config_def)
lemma sort_frame_trans: "sort_frame a b \<Longrightarrow> sort_frame b c \<Longrightarrow> sort_frame a c"
  by (auto simp: sort_frame_def intro: same_config_trans)
lemma enc_frame_trans: "enc_frame a b \<Longrightarrow> enc_frame b c \<Longrightarrow> enc_frame a c"
  by (auto simp: enc_frame_def intro: sort_frame_trans)

lemma push_back_simps [simp]:
  "m_bit_buffer (push_back b st) = m_bit_buffer st @ [b]"
  "QZ_TERM (push_back b st) = QZ_TERM st"
  "m_budget (push_back b st) = m_budget st"
  "m_dim_x (push_back b st) = m_dim_x st"
  "m_dim_y (push_back b st) = m_dim_y st"
  "m_dim_z (push_back b st) = m_dim_z st"
  "m_coeff_len (push_back b st) = m_coeff_len st"
  "m_coeff_buf (push_back b st) = m_coeff_buf st"
  "m_max_coeff_bits (push_back b st) = m_max_coeff_bits st"
  "m_sign_array (push_back b st) = m_sign_array st"
  "m_bit_idx (push_back b st) = m_bit_idx st"
  "m_threshold (push_back b st) = m_threshold st"
  "m_encode_mode (push_back b st) = m_encode_mode st"
  "m_sig_map (push_back b st) = m_sig_map st"
  "m_sig_map_enabled (push_back b st) = m_sig_map_enabled st"
  "m_qz_term_lev (push_back b st) = m_qz_term_lev st"
  "m_LIS (push_back b st) = m_LIS st"
  "m_LIP (push_back b st) = m_LIP st"
  "m_LSP_new (push_back b st) = m_LSP_new st"
  "m_LSP_old (push_back b st) = m_LSP_old st"
  by (simp_all add: push_back_def)

lemma LIS_update_simps [simp]:
  "m_bit_buffer (LIS_update i j f st) = m_bit_buffer st"
  "QZ_TERM (LIS_update i j f st) = QZ_TERM st"
  "m_budget (LIS_update i j f st) = m_budget st"
  "m_dim_x (LIS_update i j f st) = m_dim_x st"
  "m_dim_y (LIS_update i j f st) = m_dim_y st"
  "m_dim_z (LIS_update i j f st) = m_dim_z st"
  "m_coeff_len (LIS_update i j f st) = m_coeff_len st"
  "m_coeff_buf (LIS_update i j f st) = m_coeff_buf st"
  "m_max_coeff_bits (LIS_update i j f st) = m_max_coeff_bits st"
  "m_sign_array (LIS_update i j f st) = m_sign_array st"
  "m_bit_idx (LIS_update i j f st) = m_bit_idx st"
  "m_threshold (LIS_update i j f st) = m_threshold st"
  "m_encode_mode (LIS_update i j f st) = m_encode_mode st"
  "m_sig_map (LIS_update i j f st) = m_sig_map st"
  "m_sig_map_enabled (LIS_update i j f st) = m_sig_map_enabled st"
  "m_qz_term_lev (LIS_update i j f st) = m_qz_term_lev st"
  "m_LIP (LIS_update i j f st) = m_LIP st"
  "m_LSP_new (LIS_update i j f st) = m_LSP_new st"
  "m_LSP_old (LIS_update i j f st) = m_LSP_old st"
  "m_LIS (LIS_update i j f st) = (m_LIS st)[i := (m_LIS st ! i)[j := f (m_LIS st ! i ! j)]]"
  by (simp_all add: LIS_update_def)

lemma is_sig_at_cong:
  "m_sig_map_enabled a = m_sig_map_enabled b \<Longrightarrow> m_sig_map a = m_sig_map b \<Longrightarrow>
   m_coeff_buf a = m_coeff_buf b \<Longrightarrow> m_threshold a = m_threshold b \<Longrightarrow>
   is_sig_at a i = is_sig_at b i"
  by (simp add: is_sig_at_def coeff_def)

lemma budget_met_push_back [simp]:
  "budget_met (push_back b st) \<longleftrightarrow> \<not> QZ_TERM st \<and> m_budget st \<le> Suc (length (m_bit_buffer st))"
  by (simp add: budget_met_def)

lemma process_P_encode_cases [consumes 1, case_names met insig sig]:
  assumes "m_process_P_encode st loc sig = (r, st')"
  obtains
    (met) "budget_met (push_back (P_sig st loc sig) st)" "r = BitBudgetMet"
          "st' = push_back (P_sig st loc sig) st"
  | (insig) "\<not> P_sig st loc sig" "\<not> budget_met (push_back False st)" "r = Good"
          "st' = push_back False st"
  | (sig) "P_sig st loc sig" "\<not> budget_met (push_back True st)" "st' = P_move st loc"
          "r = (if budget_met (P_move st loc) then BitBudgetMet else Good)"
proof -
  have ps: "(if sig = Dunno then is_sig_at st (m_LIP st ! loc) else sig = Sig) = P_sig st loc sig"
    by (simp add: P_sig_def)
  note a = assms[unfolded m_process_P_encode_def Let_def ps]
  show ?thesis
  proof (cases "budget_met (push_back (P_sig st loc sig) st)")
    case True
    with a show ?thesis by (intro that(1)) auto
  next
    case nm: False
    show ?thesis
    proof (cases "P_sig st loc sig")
      case False
      with nm a show ?thesis by (intro that(2)) auto
    next
      case True
      with nm a show ?thesis
        by (intro that(3)) (auto simp: P_move_def split: if_splits)
    qed
  qed
qed

lemma partition_XYZ_signif [simp]:
  "m_partition_S_XYZ (s\<lparr> signif := x \<rparr>) = m_partition_S_XYZ s"
  by (simp add: m_partition_S_XYZ_def)

lemma LIS_update_nth_partition [simp]:
  "m_partition_S_XYZ (m_LIS (LIS_update idx1 idx2 (\<lambda>s. s\<lparr> signif := x \<rparr>) st) ! idx1 ! idx2)
     = m_partition_S_XYZ (m_LIS st ! idx1 ! idx2)"
proof (cases "idx1 < length (m_LIS st)")
  case True
  show ?thesis
  proof (cases "idx2 < length (m_LIS st ! idx1)")
    case t2: True
    with True show ?thesis by simp
  next
    case False
    then have "(m_LIS st ! idx1)[idx2 := (m_LIS st ! idx1 ! idx2)\<lparr>signif := x\<rparr>] = m_LIS st ! idx1"
      by (simp add: list_update_beyond)
    with True show ?thesis by simp
  qed
next
  case False
  then have "(m_LIS st)[idx1 := (m_LIS st ! idx1)[idx2 := (m_LIS st ! idx1 ! idx2)\<lparr>signif := x\<rparr>]] = m_LIS st"
    by (simp add: list_update_beyond)
  then show ?thesis by simp
qed

lemma process_S_encode_cases [consumes 1, case_names met insig sig_met sig_good]:
  assumes "m_process_S_encode (Suc fuel) st idx1 idx2 sig = Some (r, st')"
  obtains
    (met) "budget_met (S_pushed st idx1 idx2 sig)" "r = BitBudgetMet" "st' = S_pushed st idx1 idx2 sig"
  | (insig) "\<not> budget_met (S_pushed st idx1 idx2 sig)" "S_signif st idx1 idx2 sig \<noteq> Sig"
          "r = Good" "st' = S_pushed st idx1 idx2 sig"
  | (sig_met) "\<not> budget_met (S_pushed st idx1 idx2 sig)" "S_signif st idx1 idx2 sig = Sig"
          "code_S_encode_loop fuel (S_pushed st idx1 idx2 sig)
             (zip (m_partition_S_XYZ (m_LIS st ! idx1 ! idx2)) (S_hints st idx1 idx2 sig))
           = Some (BitBudgetMet, st')" "\<not> QZ_TERM st'" "r = BitBudgetMet"
  | (sig_good) r3 st3 where "\<not> budget_met (S_pushed st idx1 idx2 sig)" "S_signif st idx1 idx2 sig = Sig"
          "code_S_encode_loop fuel (S_pushed st idx1 idx2 sig)
             (zip (m_partition_S_XYZ (m_LIS st ! idx1 ! idx2)) (S_hints st idx1 idx2 sig))
           = Some (r3, st3)" "QZ_TERM st3 \<or> r3 \<noteq> BitBudgetMet" "r = Good"
          "st' = LIS_update idx1 idx2 (\<lambda>s. s\<lparr> type := Garbage \<rparr>) st3"
proof -
  have pushed: "push_back (S_signif st idx1 idx2 sig = Sig)
       (LIS_update idx1 idx2 (\<lambda>s. s\<lparr> signif := S_signif st idx1 idx2 sig \<rparr>) st) = S_pushed st idx1 idx2 sig"
    by (simp add: S_pushed_def)
  have sg: "(if sig = Dunno then if (if sig = Dunno then m_decide_significance st (m_LIS st ! idx1 ! idx2) else None) = None then Insig else Sig else sig)
     = S_signif st idx1 idx2 sig"
    by (simp add: S_signif_def S_found_def)
  have hints: "(case (if sig = Dunno then m_decide_significance st (m_LIS st ! idx1 ! idx2) else None) of
        Some xyz \<Rightarrow> subset_sigs_of (sub_i_of (m_LIS st ! idx1 ! idx2) xyz)
      | None \<Rightarrow> replicate 8 Dunno) = S_hints st idx1 idx2 sig"
    by (simp add: S_hints_def S_found_def)
  have part: "m_partition_S_XYZ (m_LIS (S_pushed st idx1 idx2 sig) ! idx1 ! idx2)
     = m_partition_S_XYZ (m_LIS st ! idx1 ! idx2)"
    by (simp only: S_pushed_def push_back_simps LIS_update_nth_partition)
  from assms have *: "(if budget_met (S_pushed st idx1 idx2 sig) then Some (BitBudgetMet, S_pushed st idx1 idx2 sig)
         else if S_signif st idx1 idx2 sig = Sig then
           (case code_S_encode_loop fuel (S_pushed st idx1 idx2 sig)
             (zip (m_partition_S_XYZ (m_LIS st ! idx1 ! idx2)) (S_hints st idx1 idx2 sig)) of
              None \<Rightarrow> None
            | Some (rtn, st3) \<Rightarrow>
                if \<not> QZ_TERM st3 \<and> rtn = BitBudgetMet then Some (BitBudgetMet, st3)
                else Some (Good, LIS_update idx1 idx2 (\<lambda>s. s\<lparr> type := Garbage \<rparr>) st3))
         else Some (Good, S_pushed st idx1 idx2 sig)) = Some (r, st')"
    unfolding m_process_S_encode.simps m_code_S_encode.simps Let_def sg hints pushed part .
  show ?thesis
  proof (cases "budget_met (S_pushed st idx1 idx2 sig)")
    case True
    with * show ?thesis by (intro that(1)) auto
  next
    case nm: False
    show ?thesis
    proof (cases "S_signif st idx1 idx2 sig = Sig")
      case False
      with nm * show ?thesis by (intro that(2)) auto
    next
      case sg: True
      let ?run = "code_S_encode_loop fuel (S_pushed st idx1 idx2 sig)
             (zip (m_partition_S_XYZ (m_LIS st ! idx1 ! idx2)) (S_hints st idx1 idx2 sig))"
      from nm sg * obtain r3 st3 where run: "?run = Some (r3, st3)"
        by (cases ?run) auto
      show ?thesis
      proof (cases "\<not> QZ_TERM st3 \<and> r3 = BitBudgetMet")
        case True
        with nm sg * run show ?thesis by (intro that(3)) auto
      next
        case False
        with nm sg * run show ?thesis by (intro that(4)[of r3 st3]) auto
      qed
    qed
  qed
qed

lemma code_S_encode_loop_cases [consumes 1, case_names pixel_met pixel_go set_met set_go empty]:
  assumes "code_S_encode_loop fuel st ((s, sig) # rest) = Some (r, st')"
  obtains
    (pixel_met) "is_pixel s"
       "m_process_P_encode (LIP_pushed st s) (length (m_LIP st)) sig = (BitBudgetMet, st')"
       "\<not> QZ_TERM st'" "r = BitBudgetMet"
  | (pixel_go) r1 st2 where "is_pixel s"
       "m_process_P_encode (LIP_pushed st s) (length (m_LIP st)) sig = (r1, st2)"
       "QZ_TERM st2 \<or> r1 \<noteq> BitBudgetMet" "code_S_encode_loop fuel st2 rest = Some (r, st')"
  | (set_met) "\<not> is_pixel s" "\<not> is_empty s" "part_level s < length (m_LIS st)"
       "m_process_S_encode fuel (LIS_pushed st s) (part_level s) (length (m_LIS st ! part_level s)) sig
          = Some (BitBudgetMet, st')"
       "\<not> QZ_TERM st'" "r = BitBudgetMet"
  | (set_go) r1 st2 where "\<not> is_pixel s" "\<not> is_empty s" "part_level s < length (m_LIS st)"
       "m_process_S_encode fuel (LIS_pushed st s) (part_level s) (length (m_LIS st ! part_level s)) sig
          = Some (r1, st2)"
       "QZ_TERM st2 \<or> r1 \<noteq> BitBudgetMet" "code_S_encode_loop fuel st2 rest = Some (r, st')"
  | (empty) "\<not> is_pixel s" "is_empty s" "code_S_encode_loop fuel st rest = Some (r, st')"
proof -
  have lip: "st\<lparr> m_LIP := m_LIP st @ [raster_index st s] \<rparr> = LIP_pushed st s"
    by (simp add: LIP_pushed_def)
  have lis: "st\<lparr> m_LIS := LIS_emplace_back s (m_LIS st) \<rparr> = LIS_pushed st s"
    by (simp add: LIS_pushed_def)
  have l1: "length (m_LIP (LIP_pushed st s)) - 1 = length (m_LIP st)"
    by (simp add: LIP_pushed_def)
  have l2: "part_level s < length (m_LIS st) \<Longrightarrow>
      length (m_LIS (LIS_pushed st s) ! part_level s) - 1 = length (m_LIS st ! part_level s)"
    by (simp add: LIS_pushed_def LIS_emplace_back_def)
  note a = assms[unfolded code_S_encode_loop.simps Let_def lip lis l1]
  show ?thesis
  proof (cases "is_pixel s")
    case px: True
    obtain r1 st2 where p: "m_process_P_encode (LIP_pushed st s) (length (m_LIP st)) sig = (r1, st2)"
      by (cases "m_process_P_encode (LIP_pushed st s) (length (m_LIP st)) sig")
    show ?thesis
    proof (cases "\<not> QZ_TERM st2 \<and> r1 = BitBudgetMet")
      case True
      with a px p show ?thesis by (intro that(1)) simp_all
    next
      case False
      with a px p show ?thesis by (intro that(2)[of r1 st2]) auto
    qed
  next
    case npx: False
    show ?thesis
    proof (cases "is_empty s")
      case True
      with a npx show ?thesis by (intro that(5)) simp_all
    next
      case ne: False
      with a npx have inr: "part_level s < length (m_LIS st)"
        by (auto split: if_splits)
      let ?run = "m_process_S_encode fuel (LIS_pushed st s) (part_level s) (length (m_LIS st ! part_level s)) sig"
      from a npx ne inr l2 obtain r1 st2 where run: "?run = Some (r1, st2)"
        by (cases ?run) auto
      show ?thesis
      proof (cases "\<not> QZ_TERM st2 \<and> r1 = BitBudgetMet")
        case True
        with a npx ne inr l2 run show ?thesis by (intro that(3)) simp_all
      next
        case False
        with a npx ne inr l2 run show ?thesis by (intro that(4)[of r1 st2]) auto
      qed
    qed
  qed
qed

lemma enc_step_trans: "enc_step Good a b \<Longrightarrow> enc_step r b c \<Longrightarrow> enc_step r a c"
  unfolding enc_step_def budget_ok_def
  by (auto intro: enc_frame_trans simp: enc_frame_def sort_frame_def same_config_def)

lemma enc_step_Good: "enc_step r a b \<Longrightarrow> QZ_TERM b \<or> r \<noteq> BitBudgetMet \<Longrightarrow> r = Good"
  unfolding enc_step_def budget_ok_def
  by (auto simp: enc_frame_def sort_frame_def same_config_def)

lemma enc_step_silent:
  "enc_frame a b \<Longrightarrow> m_bit_buffer b = m_bit_buffer a \<Longrightarrow> enc_step Good a b"
  by (simp add: enc_step_def budget_ok_def)

lemma enc_step_refl [simp]: "enc_step Good st st"
  by (simp add: enc_step_silent)

lemma enc_frame_push_back [simp]: "enc_frame st (push_back b st)"
  by (simp add: enc_frame_def sort_frame_def same_config_def)

lemma enc_step_push:
  "enc_step (if budget_met (push_back b st) then BitBudgetMet else Good) st (push_back b st)"
  by (auto simp: enc_step_def budget_ok_def)

lemma enc_step_push_met: "budget_met (push_back b st) \<Longrightarrow> enc_step BitBudgetMet st (push_back b st)"
  by (auto simp: enc_step_def budget_ok_def)

lemma enc_step_push_good: "\<not> budget_met (push_back b st) \<Longrightarrow> enc_step Good st (push_back b st)"
  by (auto simp: enc_step_def budget_ok_def)

lemma enc_frame_LIS_update [simp]: "enc_frame st (LIS_update i j f st)"
  by (simp add: enc_frame_def sort_frame_def same_config_def)

lemma enc_frame_LIP_pushed [simp]: "enc_frame st (LIP_pushed st s)"
  by (simp add: enc_frame_def sort_frame_def same_config_def LIP_pushed_def)

lemma enc_frame_LIS_pushed [simp]: "enc_frame st (LIS_pushed st s)"
  by (simp add: enc_frame_def sort_frame_def same_config_def LIS_pushed_def LIS_emplace_back_def)

lemma LIS_update_buf_step [simp]: "enc_step Good st (LIS_update i j f st)"
  by (simp add: enc_step_silent)

lemma LIP_pushed_step [simp]: "enc_step Good st (LIP_pushed st s)"
  by (rule enc_step_silent, simp, simp add: LIP_pushed_def)

lemma LIS_pushed_step [simp]: "enc_step Good st (LIS_pushed st s)"
  by (rule enc_step_silent, simp, simp add: LIS_pushed_def)

lemma enc_frame_S_pushed [simp]: "enc_frame st (S_pushed st i j sig)"
  unfolding S_pushed_def by (rule enc_frame_trans[OF enc_frame_LIS_update enc_frame_push_back])

lemma S_pushed_fields [simp]:
  "m_bit_buffer (S_pushed st i j sig) = m_bit_buffer st @ [S_signif st i j sig = Sig]"
  "QZ_TERM (S_pushed st i j sig) = QZ_TERM st"
  "m_budget (S_pushed st i j sig) = m_budget st"
  "m_LIP (S_pushed st i j sig) = m_LIP st"
  "m_LSP_new (S_pushed st i j sig) = m_LSP_new st"
  "m_LIS (S_pushed st i j sig)
     = (m_LIS st)[i := (m_LIS st ! i)[j := (m_LIS st ! i ! j)\<lparr> signif := S_signif st i j sig \<rparr>]]"
  by (simp_all add: S_pushed_def)

lemma S_pushed_step:
  "enc_step (if budget_met (S_pushed st i j sig) then BitBudgetMet else Good) st (S_pushed st i j sig)"
  by (auto simp: enc_step_def budget_ok_def budget_met_def)

lemma P_move_fields [simp]:
  "m_bit_buffer (P_move st loc) = m_bit_buffer st @ [True, m_sign_array st ! (m_LIP st ! loc)]"
  "QZ_TERM (P_move st loc) = QZ_TERM st"
  "m_budget (P_move st loc) = m_budget st"
  "m_LIS (P_move st loc) = m_LIS st"
  "m_LIP (P_move st loc) = (m_LIP st)[loc := m_u64_garbage_val]"
  "m_LSP_new (P_move st loc) = m_LSP_new st @ [m_LIP st ! loc]"
  by (simp_all add: P_move_def)

lemma enc_frame_P_move [simp]: "enc_frame st (P_move st loc)"
  by (simp add: enc_frame_def sort_frame_def same_config_def P_move_def)

lemma process_P_encode_step:
  assumes "m_process_P_encode st loc sig = (r, st')"
  shows "enc_step r st st'"
  using assms
proof (cases rule: process_P_encode_cases)
  case met
  then show ?thesis by (simp add: enc_step_push_met)
next
  case insig
  then show ?thesis by (simp add: enc_step_push_good)
next
  case sig
  then show ?thesis
    by (auto simp: enc_step_def budget_ok_def budget_met_def)
qed

lemma code_S_encode_loop_step_aux:
  assumes IH: "\<And>st idx1 idx2 sig r st'. m_process_S_encode fuel st idx1 idx2 sig = Some (r, st')
         \<Longrightarrow> enc_step r st st'"
  shows "code_S_encode_loop fuel st xs = Some (r, st') \<Longrightarrow> enc_step r st st'"
proof (induction xs arbitrary: st)
  case Nil
  then show ?case by simp
next
  case (Cons x xs)
  obtain s sig where x: "x = (s, sig)" by (cases x)
  from Cons.prems[unfolded x] show ?case
  proof (cases rule: code_S_encode_loop_cases)
    case pixel_met
    from process_P_encode_step[OF pixel_met(2)] pixel_met(4) show ?thesis
      by (auto intro: enc_step_trans[OF LIP_pushed_step])
  next
    case (pixel_go r1 st2)
    from process_P_encode_step[OF pixel_go(2)] have "enc_step r1 (LIP_pushed st s) st2" .
    with pixel_go(3) have "enc_step Good (LIP_pushed st s) st2"
      using enc_step_Good by blast
    with Cons.IH[OF pixel_go(4)] show ?thesis
      by (blast intro: enc_step_trans LIP_pushed_step)
  next
    case set_met
    from IH[OF set_met(4)] set_met(6) show ?thesis
      by (auto intro: enc_step_trans[OF LIS_pushed_step])
  next
    case (set_go r1 st2)
    from IH[OF set_go(4)] have "enc_step r1 (LIS_pushed st s) st2" .
    with set_go(5) have "enc_step Good (LIS_pushed st s) st2"
      using enc_step_Good by blast
    with Cons.IH[OF set_go(6)] show ?thesis
      by (blast intro: enc_step_trans LIS_pushed_step)
  next
    case empty
    with Cons.IH show ?thesis by blast
  qed
qed

lemma process_S_encode_step:
  "m_process_S_encode fuel st idx1 idx2 sig = Some (r, st') \<Longrightarrow> enc_step r st st'"
proof (induction fuel arbitrary: st idx1 idx2 sig r st')
  case 0
  then show ?case by simp
next
  case (Suc fuel)
  have loop: "\<And>st xs r st'. code_S_encode_loop fuel st xs = Some (r, st') \<Longrightarrow> enc_step r st st'"
    by (rule code_S_encode_loop_step_aux) (rule Suc.IH)
  from Suc.prems show ?case
  proof (cases rule: process_S_encode_cases)
    case met
    with S_pushed_step[of st idx1 idx2 sig] show ?thesis by simp
  next
    case insig
    with S_pushed_step[of st idx1 idx2 sig] show ?thesis by simp
  next
    case sig_met
    from S_pushed_step[of st idx1 idx2 sig] sig_met(1)
    have "enc_step Good st (S_pushed st idx1 idx2 sig)" by simp
    with loop[OF sig_met(3)] sig_met(5) show ?thesis
      by (blast intro: enc_step_trans)
  next
    case (sig_good r3 st3)
    from S_pushed_step[of st idx1 idx2 sig] sig_good(1)
    have a: "enc_step Good st (S_pushed st idx1 idx2 sig)" by simp
    from loop[OF sig_good(3)] sig_good(4) have "enc_step Good (S_pushed st idx1 idx2 sig) st3"
      using enc_step_Good by blast
    with a have "enc_step Good st st3" by (blast intro: enc_step_trans)
    then have "enc_step Good st (LIS_update idx1 idx2 (\<lambda>s. s\<lparr> type := Garbage \<rparr>) st3)"
      by (blast intro: enc_step_trans LIS_update_buf_step)
    with sig_good show ?thesis by simp
  qed
qed

lemma code_S_encode_loop_step:
  "code_S_encode_loop fuel st xs = Some (r, st') \<Longrightarrow> enc_step r st st'"
  by (rule code_S_encode_loop_step_aux) (rule process_S_encode_step)

lemma emit_tmp_result_sorting_eq:
  "emit_tmp_result_sorting es st = push_bits (concat (map tag_bits es)) st"
  by (induction es arbitrary: st) (simp_all add: Let_def tag_bits_def)

lemma emit_tmp_result_refinement_eq:
  "emit_tmp_result_refinement rs st = push_bits (map (\<lambda>r. r \<noteq> m_false) rs) st"
  by (induction rs arbitrary: st) (simp_all add: Let_def)

lemma push_back_eq: "push_back b st = st\<lparr> m_bit_buffer := m_bit_buffer st @ [b] \<rparr>"
  by (simp add: push_back_def)

lemma push_bits_closed:
  "QZ_TERM st \<or> length (m_bit_buffer st) < m_budget st \<Longrightarrow>
   push_bits bs st =
     (if \<not> QZ_TERM st \<and> m_budget st \<le> length (m_bit_buffer st) + length bs
      then (BitBudgetMet,
            st\<lparr> m_bit_buffer := m_bit_buffer st
                     @ take (m_budget st - length (m_bit_buffer st)) bs \<rparr>)
      else (Good, st\<lparr> m_bit_buffer := m_bit_buffer st @ bs \<rparr>))"
proof (induction bs arbitrary: st)
  case Nil
  then show ?case by auto
next
  case (Cons b bs)
  show ?case
  proof (cases "budget_met (push_back b st)")
    case True
    with Cons.prems have "m_budget st - length (m_bit_buffer st) = Suc 0" "\<not> QZ_TERM st"
      "m_budget st \<le> length (m_bit_buffer st) + length (b # bs)"
      by auto
    with True show ?thesis by (simp add: push_back_eq)
  next
    case False
    with Cons.prems have pre: "QZ_TERM (push_back b st)
        \<or> length (m_bit_buffer (push_back b st)) < m_budget (push_back b st)"
      by auto
    have ar: "m_budget st - length (m_bit_buffer st) = Suc (m_budget st - Suc (length (m_bit_buffer st)))"
      if "\<not> QZ_TERM st"
      using that False by auto
    have step: "push_bits (b # bs) st = push_bits bs (push_back b st)"
      using False by auto
    show ?thesis
      unfolding step Cons.IH[OF pre]
      using False ar by (auto simp: push_back_eq)
  qed
qed

lemma m_sorting_pass_encode_unfold:
  "m_sorting_pass_encode st =
     (case push_bits (LIP_bits st) (LIP_scan st) of
        (rtn, st2) \<Rightarrow>
          if rtn = BitBudgetMet then Some (rtn, st2)
          else sorting_LIS_encode (rev [0 ..< length (m_LIS st2)]) st2)"
proof -
  have "concat (map tag_bits (map (\<lambda>pixel_idx. if is_sig_at st pixel_idx
                                then (if m_sign_array st ! pixel_idx then sig_pos else sig_neg)
                                else m_false) (m_LIP st))) = LIP_bits st"
    unfolding LIP_bits_def map_map
    by (rule arg_cong[where f = concat], rule map_cong)
       (auto simp: tag_bits_def sig_pos_def sig_neg_def m_false_def)
  then show ?thesis
    by (simp add: m_sorting_pass_encode_def Let_def emit_tmp_result_sorting_eq LIP_scan_def)
qed

lemma pass_frame_refl [simp]: "pass_frame st st" by (simp add: pass_frame_def)

lemma pass_frame_trans: "pass_frame a b \<Longrightarrow> pass_frame b c \<Longrightarrow> pass_frame a c"
  by (auto simp: pass_frame_def intro: same_config_trans)

lemma enc_frame_pass_frame: "enc_frame a b \<Longrightarrow> pass_frame a b"
  by (simp add: enc_frame_def pass_frame_def sort_frame_def)

lemma enc_step_pass_step: "enc_step r a b \<Longrightarrow> pass_step r a b"
  by (simp add: enc_step_def pass_step_def enc_frame_pass_frame)

lemma pass_step_trans: "pass_step Good a b \<Longrightarrow> pass_step r b c \<Longrightarrow> pass_step r a c"
  unfolding pass_step_def budget_ok_def
  by (auto intro: pass_frame_trans simp: pass_frame_def same_config_def)

lemma pass_step_Good: "pass_step r a b \<Longrightarrow> QZ_TERM b \<or> r \<noteq> BitBudgetMet \<Longrightarrow> r = Good"
  unfolding pass_step_def budget_ok_def
  by (auto simp: pass_frame_def same_config_def)

lemma pass_step_silent:
  "pass_frame a b \<Longrightarrow> m_bit_buffer b = m_bit_buffer a \<Longrightarrow> pass_step Good a b"
  by (simp add: pass_step_def budget_ok_def)

lemma push_bits_step: "push_bits bs st = (r, st') \<Longrightarrow> enc_step r st st'
    \<and> m_LIS st' = m_LIS st \<and> m_LIP st' = m_LIP st \<and> m_LSP_new st' = m_LSP_new st"
proof (induction bs arbitrary: st)
  case Nil
  then show ?case by auto
next
  case (Cons b bs)
  show ?case
  proof (cases "budget_met (push_back b st)")
    case True
    with Cons.prems show ?thesis by (auto simp: enc_step_push_met)
  next
    case False
    with Cons.prems have "push_bits bs (push_back b st) = (r, st')" by (auto split: if_splits)
    from Cons.IH[OF this] enc_step_push_good[OF False] show ?thesis
      by (auto intro: enc_step_trans)
  qed
qed

lemma sorting_bucket_encode_cases [consumes 1, case_names finished met go]:
  assumes "sorting_bucket_encode (Suc fuel) st idx1 idx2 = Some (r, st')"
  obtains
    (finished) "\<not> idx2 < length (m_LIS st ! idx1)" "r = Good" "st' = st"
  | (met) "idx2 < length (m_LIS st ! idx1)"
       "m_process_S_encode fuel st idx1 idx2 Dunno = Some (BitBudgetMet, st')"
       "\<not> QZ_TERM st'" "r = BitBudgetMet"
  | (go) r1 st1 where "idx2 < length (m_LIS st ! idx1)"
       "m_process_S_encode fuel st idx1 idx2 Dunno = Some (r1, st1)"
       "QZ_TERM st1 \<or> r1 \<noteq> BitBudgetMet"
       "sorting_bucket_encode fuel st1 idx1 (idx2 + 1) = Some (r, st')"
proof (cases "idx2 < length (m_LIS st ! idx1)")
  case False
  with assms show ?thesis by (intro that(1)) auto
next
  case True
  with assms obtain r1 st1 where run: "m_process_S_encode fuel st idx1 idx2 Dunno = Some (r1, st1)"
    by (cases "m_process_S_encode fuel st idx1 idx2 Dunno") auto
  show ?thesis
  proof (cases "\<not> QZ_TERM st1 \<and> r1 = BitBudgetMet")
    case t: True
    with assms True run show ?thesis by (intro that(2)) auto
  next
    case False
    with assms True run show ?thesis by (intro that(3)[of r1 st1]) auto
  qed
qed

lemma sorting_LIS_encode_cases [consumes 1, case_names met go]:
  assumes "sorting_LIS_encode (idx1 # rest) st = Some (r, st')"
  obtains
    (met) "sorting_bucket_encode (bucket_fuel st idx1) st idx1 0 = Some (BitBudgetMet, st')"
       "r = BitBudgetMet"
  | (go) r1 st1 where "sorting_bucket_encode (bucket_fuel st idx1) st idx1 0 = Some (r1, st1)"
       "r1 \<noteq> BitBudgetMet" "sorting_LIS_encode rest st1 = Some (r, st')"
proof -
  from assms obtain r1 st1 where run: "sorting_bucket_encode (bucket_fuel st idx1) st idx1 0 = Some (r1, st1)"
    by (cases "sorting_bucket_encode (bucket_fuel st idx1) st idx1 0") auto
  show ?thesis
  proof (cases "r1 = BitBudgetMet")
    case True
    with assms run show ?thesis by (intro that(1)) auto
  next
    case False
    with assms run show ?thesis by (intro that(2)[of r1 st1]) auto
  qed
qed

lemma m_sorting_pass_encode_cases [consumes 1, case_names met go]:
  assumes "m_sorting_pass_encode st = Some (r, st')"
  obtains
    (met) "push_bits (LIP_bits st) (LIP_scan st) = (BitBudgetMet, st')" "r = BitBudgetMet"
  | (go) r1 st2 where "push_bits (LIP_bits st) (LIP_scan st) = (r1, st2)" "r1 \<noteq> BitBudgetMet"
       "sorting_LIS_encode (rev [0 ..< length (m_LIS st2)]) st2 = Some (r, st')"
proof -
  obtain r1 st2 where run: "push_bits (LIP_bits st) (LIP_scan st) = (r1, st2)"
    by (cases "push_bits (LIP_bits st) (LIP_scan st)")
  show ?thesis
  proof (cases "r1 = BitBudgetMet")
    case True
    with assms run show ?thesis by (intro that(1)) (auto simp: m_sorting_pass_encode_unfold)
  next
    case False
    with assms run show ?thesis by (intro that(2)[of r1 st2]) (auto simp: m_sorting_pass_encode_unfold)
  qed
qed

lemma sorting_bucket_encode_step:
  "sorting_bucket_encode fuel st idx1 idx2 = Some (r, st') \<Longrightarrow> enc_step r st st'"
proof (induction fuel arbitrary: st idx2)
  case 0
  then show ?case by simp
next
  case (Suc fuel)
  from Suc.prems show ?case
  proof (cases rule: sorting_bucket_encode_cases)
    case finished
    then show ?thesis by simp
  next
    case met
    with process_S_encode_step show ?thesis by blast
  next
    case (go r1 st1)
    from process_S_encode_step[OF go(2)] go(3) have "enc_step Good st st1"
      using enc_step_Good by blast
    with Suc.IH[OF go(4)] show ?thesis by (blast intro: enc_step_trans)
  qed
qed

lemma sorting_LIS_encode_step:
  "sorting_LIS_encode idxs st = Some (r, st') \<Longrightarrow> enc_step r st st'"
proof (induction idxs arbitrary: st)
  case Nil
  then show ?case by simp
next
  case (Cons i idxs)
  from Cons.prems show ?case
  proof (cases rule: sorting_LIS_encode_cases)
    case met
    with sorting_bucket_encode_step show ?thesis by blast
  next
    case (go r1 st1)
    from sorting_bucket_encode_step[OF go(1)] go(2) have "enc_step Good st st1"
      using enc_step_Good by blast
    with Cons.IH[OF go(3)] show ?thesis by (blast intro: enc_step_trans)
  qed
qed

lemma LIP_scan_fields [simp]:
  "m_bit_buffer (LIP_scan st) = m_bit_buffer st"
  "QZ_TERM (LIP_scan st) = QZ_TERM st"
  "m_budget (LIP_scan st) = m_budget st"
  "m_LIS (LIP_scan st) = m_LIS st"
  "m_coeff_buf (LIP_scan st) = m_coeff_buf st"
  "m_threshold (LIP_scan st) = m_threshold st"
  "m_sig_map (LIP_scan st) = m_sig_map st"
  "m_sig_map_enabled (LIP_scan st) = m_sig_map_enabled st"
  "m_LSP_old (LIP_scan st) = m_LSP_old st"
  "m_sign_array (LIP_scan st) = m_sign_array st"
  by (simp_all add: LIP_scan_def)

lemma enc_frame_LIP_scan [simp]: "enc_frame st (LIP_scan st)"
  by (simp add: enc_frame_def sort_frame_def same_config_def LIP_scan_def)

lemma m_sorting_pass_encode_step:
  assumes "m_sorting_pass_encode st = Some (r, st')"
  shows "enc_step r st st'"
proof -
  have a: "enc_step Good st (LIP_scan st)" by (rule enc_step_silent) simp_all
  from assms show ?thesis
  proof (cases rule: m_sorting_pass_encode_cases)
    case met
    with push_bits_step[OF met(1)] a show ?thesis by (blast intro: enc_step_trans)
  next
    case (go r1 st2)
    from push_bits_step[OF go(1)] go(2) have "enc_step Good (LIP_scan st) st2"
      using enc_step_Good by blast
    with a sorting_LIS_encode_step[OF go(3)] show ?thesis by (blast intro: enc_step_trans)
  qed
qed

lemma push_bits_threshold: "push_bits bs st = (r, st') \<Longrightarrow> m_threshold st' = m_threshold st
    \<and> m_sig_map_enabled st' = m_sig_map_enabled st \<and> m_coeff_len st' = m_coeff_len st
    \<and> m_coeff_buf st' = m_coeff_buf st \<and> m_LSP_old st' = m_LSP_old st"
  using push_bits_step[of bs st r st']
  by (simp add: enc_step_def enc_frame_def sort_frame_def same_config_def)

lemma refine_old_state_fields [simp]:
  "m_threshold (refine_old_state st) = m_threshold st"
  "m_sig_map_enabled (refine_old_state st) = m_sig_map_enabled st"
  "m_coeff_len (refine_old_state st) = m_coeff_len st"
  "m_LSP_old (refine_old_state st) = m_LSP_old st"
  "m_LSP_new (refine_old_state st) = m_LSP_new st"
  "m_LIS (refine_old_state st) = m_LIS st"
  "m_LIP (refine_old_state st) = m_LIP st"
  "m_sig_map (refine_old_state st) = m_sig_map st"
  "QZ_TERM (refine_old_state st) = QZ_TERM st"
  "m_budget (refine_old_state st) = m_budget st"
  by (simp_all add: refine_old_state_def)

lemma m_refinement_pass_encode_unfold:
  "m_refinement_pass_encode st =
     (case push_bits (refine_bits st) (refine_old_state st) of
        (rtn, st2) \<Rightarrow>
          if rtn = BitBudgetMet then (rtn, st2) else (Good, refine_finish st2))"
proof -
  have m: "(\<lambda>r. r \<noteq> m_false) \<circ> (\<lambda>pos. if m_sig_map st ! pos then m_true else m_false)
      = (\<lambda>pos. m_sig_map st ! pos)"
    by (rule ext) (simp add: m_true_def m_false_def)
  obtain r1 st2 where pb: "push_bits (refine_bits st) (refine_old_state st) = (r1, st2)"
    by (cases "push_bits (refine_bits st) (refine_old_state st)")
  from push_bits_threshold[OF pb] have f: "m_threshold st2 = m_threshold st"
    "m_sig_map_enabled st2 = m_sig_map_enabled st" "m_coeff_len st2 = m_coeff_len st"
    by simp_all
  have "m_refinement_pass_encode st = (if r1 = BitBudgetMet then (r1, st2) else (Good, refine_finish st2))"
  proof (cases "m_sig_map_enabled st")
    case True
    from pb True have pb': "push_bits (map (\<lambda>pos. m_sig_map st ! pos) (m_LSP_old st)) st = (r1, st2)"
      by (simp add: refine_bits_def refine_old_state_def)
    show ?thesis
      using True pb' f
      by (simp add: m_refinement_pass_encode_def Let_def emit_tmp_result_refinement_eq m
            refine_finish_def)
  next
    case False
    from pb False have pb': "push_bits (map (\<lambda>r. r \<noteq> m_false)
             (fst (refine_LSP_old (m_LSP_old st) (m_threshold st) (the (m_coeff_buf st)))))
         (st\<lparr> m_coeff_buf :=
                 Some (snd (refine_LSP_old (m_LSP_old st) (m_threshold st) (the (m_coeff_buf st)))) \<rparr>)
         = (r1, st2)"
      by (simp add: refine_bits_def refine_old_state_def)
    show ?thesis
      using False pb' f
      by (simp add: m_refinement_pass_encode_def Let_def emit_tmp_result_refinement_eq
            refine_finish_def case_prod_unfold)
  qed
  with pb show ?thesis by simp
qed

lemma m_refinement_pass_encode_cases [consumes 1, case_names met go]:
  assumes "m_refinement_pass_encode st = (r, st')"
  obtains
    (met) "push_bits (refine_bits st) (refine_old_state st) = (BitBudgetMet, st')" "r = BitBudgetMet"
  | (go) r1 st2 where "push_bits (refine_bits st) (refine_old_state st) = (r1, st2)"
       "r1 \<noteq> BitBudgetMet" "r = Good" "st' = refine_finish st2"
proof -
  obtain r1 st2 where run: "push_bits (refine_bits st) (refine_old_state st) = (r1, st2)"
    by (cases "push_bits (refine_bits st) (refine_old_state st)")
  show ?thesis
  proof (cases "r1 = BitBudgetMet")
    case True
    with assms run show ?thesis by (intro that(1)) (auto simp: m_refinement_pass_encode_unfold)
  next
    case False
    with assms run show ?thesis by (intro that(2)[of r1 st2]) (auto simp: m_refinement_pass_encode_unfold)
  qed
qed

lemma pass_frame_refine_old [simp]: "pass_frame st (refine_old_state st)"
  by (simp add: pass_frame_def same_config_def refine_old_state_def)

lemma refine_old_state_buf [simp]: "m_bit_buffer (refine_old_state st) = m_bit_buffer st"
  by (simp add: refine_old_state_def)

lemma pass_frame_refine_finish [simp]: "pass_frame st (refine_finish st)"
  by (simp add: pass_frame_def same_config_def refine_finish_def Let_def)

lemma refine_finish_buf [simp]: "m_bit_buffer (refine_finish st) = m_bit_buffer st"
  by (simp add: refine_finish_def Let_def)

lemma m_refinement_pass_encode_step:
  assumes "m_refinement_pass_encode st = (r, st')"
  shows "pass_step r st st'"
proof -
  have a: "pass_step Good st (refine_old_state st)" by (rule pass_step_silent) simp_all
  from assms show ?thesis
  proof (cases rule: m_refinement_pass_encode_cases)
    case met
    from push_bits_step[OF met(1)] have "pass_step BitBudgetMet (refine_old_state st) st'"
      by (simp add: enc_step_pass_step)
    with a met show ?thesis by (blast intro: pass_step_trans)
  next
    case (go r1 st2)
    from push_bits_step[OF go(1)] have "pass_step r1 (refine_old_state st) st2"
      by (simp add: enc_step_pass_step)
    with go(2) have "pass_step Good (refine_old_state st) st2"
      using pass_step_Good by blast
    with a have "pass_step Good st st2" by (blast intro: pass_step_trans)
    moreover have "pass_step Good st2 (refine_finish st2)" by (rule pass_step_silent) simp_all
    ultimately show ?thesis using go by (blast intro: pass_step_trans)
  qed
qed

lemma build_sig_map_fields [simp]:
  "m_bit_buffer (build_sig_map tg st) = m_bit_buffer st"
  "QZ_TERM (build_sig_map tg st) = QZ_TERM st"
  "m_budget (build_sig_map tg st) = m_budget st"
  "m_LIS (build_sig_map tg st) = m_LIS st"
  "m_LIP (build_sig_map tg st) = m_LIP st"
  "m_LSP_new (build_sig_map tg st) = m_LSP_new st"
  "m_LSP_old (build_sig_map tg st) = m_LSP_old st"
  "m_coeff_buf (build_sig_map tg st) = m_coeff_buf st"
  "m_threshold (build_sig_map tg st) = m_threshold st"
  "m_sign_array (build_sig_map tg st) = m_sign_array st"
  "m_coeff_len (build_sig_map tg st) = m_coeff_len st"
  "m_dim_x (build_sig_map tg st) = m_dim_x st"
  "m_dim_y (build_sig_map tg st) = m_dim_y st"
  "m_dim_z (build_sig_map tg st) = m_dim_z st"
  "m_qz_term_lev (build_sig_map tg st) = m_qz_term_lev st"
  by (simp_all add: build_sig_map_def Let_def)

lemma pass_frame_build_sig_map [simp]: "pass_frame st (build_sig_map tg st)"
  by (simp add: pass_frame_def same_config_def build_sig_map_def Let_def)

lemma next_bitplane_fields [simp]:
  "m_bit_buffer (next_bitplane st) = m_bit_buffer st"
  "QZ_TERM (next_bitplane st) = QZ_TERM st"
  "m_budget (next_bitplane st) = m_budget st"
  "m_LSP_new (next_bitplane st) = m_LSP_new st"
  "m_LSP_old (next_bitplane st) = m_LSP_old st"
  "m_coeff_buf (next_bitplane st) = m_coeff_buf st"
  "m_threshold (next_bitplane st) = m_threshold st * 0.5"
  "m_sign_array (next_bitplane st) = m_sign_array st"
  "m_coeff_len (next_bitplane st) = m_coeff_len st"
  "m_dim_x (next_bitplane st) = m_dim_x st"
  "m_dim_y (next_bitplane st) = m_dim_y st"
  "m_dim_z (next_bitplane st) = m_dim_z st"
  "m_qz_term_lev (next_bitplane st) = m_qz_term_lev st"
  "m_LIS (next_bitplane st) = map (filter (\<lambda>s. type s \<noteq> Garbage)) (m_LIS st)"
  "m_LIP (next_bitplane st) = filter (\<lambda>v. v \<noteq> m_u64_garbage_val) (m_LIP st)"
  by (simp_all add: next_bitplane_def m_clean_LIS_def)

lemma pass_frame_next_bitplane [simp]: "pass_frame st (next_bitplane st)"
  by (simp add: pass_frame_def same_config_def next_bitplane_def m_clean_LIS_def)

lemma encode_bitplane_cases [consumes 1, case_names sort_met refine_met qz_stop continue]:
  assumes "encode_bitplane tg lev st = Some (c, st')"
  obtains
    (sort_met) "m_sorting_pass_encode (build_sig_map tg st) = Some (BitBudgetMet, st')"
       "\<not> QZ_TERM st'" "\<not> c"
  | (refine_met) r1 st2 where "m_sorting_pass_encode (build_sig_map tg st) = Some (r1, st2)"
       "QZ_TERM st2 \<or> r1 \<noteq> BitBudgetMet"
       "m_refinement_pass_encode st2 = (BitBudgetMet, st')" "\<not> QZ_TERM st'" "\<not> c"
  | (qz_stop) r1 st2 r2 where "m_sorting_pass_encode (build_sig_map tg st) = Some (r1, st2)"
       "QZ_TERM st2 \<or> r1 \<noteq> BitBudgetMet"
       "m_refinement_pass_encode st2 = (r2, st')" "QZ_TERM st'" "lev \<le> m_qz_term_lev st'" "\<not> c"
  | (continue) r1 st2 r2 st3 where "m_sorting_pass_encode (build_sig_map tg st) = Some (r1, st2)"
       "QZ_TERM st2 \<or> r1 \<noteq> BitBudgetMet"
       "m_refinement_pass_encode st2 = (r2, st3)" "QZ_TERM st3 \<or> r2 \<noteq> BitBudgetMet"
       "\<not> (QZ_TERM st3 \<and> lev \<le> m_qz_term_lev st3)" "c" "st' = next_bitplane st3"
proof -
  note a = assms[unfolded encode_bitplane_def Let_def]
  from a obtain r1 st2 where s: "m_sorting_pass_encode (build_sig_map tg st) = Some (r1, st2)"
    by (cases "m_sorting_pass_encode (build_sig_map tg st)") auto
  show ?thesis
  proof (cases "\<not> QZ_TERM st2 \<and> r1 = BitBudgetMet")
    case True
    with a s show ?thesis by (intro that(1)) auto
  next
    case ns: False
    obtain r2 st3 where rf: "m_refinement_pass_encode st2 = (r2, st3)"
      by (cases "m_refinement_pass_encode st2")
    show ?thesis
    proof (cases "\<not> QZ_TERM st3 \<and> r2 = BitBudgetMet")
      case True
      with a s ns rf show ?thesis by (intro that(2)[of r1 st2]) auto
    next
      case nr: False
      show ?thesis
      proof (cases "QZ_TERM st3 \<and> lev \<le> m_qz_term_lev st3")
        case True
        with a s ns rf nr show ?thesis by (intro that(3)[of r1 st2 r2]) auto
      next
        case False
        with a s ns rf nr show ?thesis
          by (intro that(4)[of r1 st2 r2 st3]) (auto simp: next_bitplane_def)
      qed
    qed
  qed
qed

lemma encode_bitplane_ok:
  assumes "encode_bitplane tg lev st = Some (c, st')"
  shows "plane_ok c st st'"
proof -
  have b: "pass_step Good st (build_sig_map tg st)" by (rule pass_step_silent) simp_all
  from assms show ?thesis
  proof (cases rule: encode_bitplane_cases)
    case sort_met
    from m_sorting_pass_encode_step[OF sort_met(1)] b
    have "pass_step BitBudgetMet st st'" by (blast intro: pass_step_trans enc_step_pass_step)
    with sort_met show ?thesis by (auto simp: plane_ok_def pass_step_def budget_ok_def)
  next
    case (refine_met r1 st2)
    from m_sorting_pass_encode_step[OF refine_met(1)] refine_met(2)
    have "pass_step Good (build_sig_map tg st) st2"
      using pass_step_Good enc_step_pass_step by blast
    with b m_refinement_pass_encode_step[OF refine_met(3)]
    have "pass_step BitBudgetMet st st'" by (blast intro: pass_step_trans)
    with refine_met show ?thesis by (auto simp: plane_ok_def pass_step_def budget_ok_def)
  next
    case (qz_stop r1 st2 r2)
    from m_sorting_pass_encode_step[OF qz_stop(1)] qz_stop(2)
    have "pass_step Good (build_sig_map tg st) st2"
      using pass_step_Good enc_step_pass_step by blast
    with b m_refinement_pass_encode_step[OF qz_stop(3)]
    have "pass_step r2 st st'" by (blast intro: pass_step_trans)
    with qz_stop show ?thesis
      by (auto simp: plane_ok_def pass_step_def budget_ok_def pass_frame_def same_config_def)
  next
    case (continue r1 st2 r2 st3)
    from m_sorting_pass_encode_step[OF continue(1)] continue(2)
    have "pass_step Good (build_sig_map tg st) st2"
      using pass_step_Good enc_step_pass_step by blast
    moreover from m_refinement_pass_encode_step[OF continue(3)] continue(4)
    have "pass_step Good st2 st3" using pass_step_Good by blast
    moreover have "pass_step Good st3 (next_bitplane st3)" by (rule pass_step_silent) simp_all
    ultimately have "pass_step Good st st'" using b continue(7) by (blast intro: pass_step_trans)
    with continue show ?thesis by (auto simp: plane_ok_def pass_step_def budget_ok_def)
  qed
qed

lemma encode_loop_budget:
  assumes "\<not> QZ_TERM st" "length (m_bit_buffer st) < m_budget st"
    and "encode_loop tg n lev st = Some st'"
  shows "pass_frame st st' \<and> length (m_bit_buffer st') \<le> m_budget st
     \<and> (length (m_bit_buffer st') = m_budget st \<or> full_bitplanes tg n lev st = Some st')"
  using assms
proof (induction n arbitrary: st lev)
  case 0
  then show ?case by simp
next
  case (Suc n)
  from Suc.prems(3) obtain c st1 where bp: "encode_bitplane tg lev st = Some (c, st1)"
    by (cases "encode_bitplane tg lev st") auto
  note ok = encode_bitplane_ok[OF bp]
  show ?case
  proof (cases c)
    case False
    with bp Suc.prems have "st' = st1" by simp
    with ok False Suc.prems show ?thesis by (auto simp: plane_ok_def)
  next
    case True
    with bp Suc.prems have rest: "encode_loop tg n (if QZ_TERM st1 then lev - 1 else lev) st1 = Some st'"
      by simp
    from ok True Suc.prems have pre: "\<not> QZ_TERM st1" "length (m_bit_buffer st1) < m_budget st1"
      "m_budget st1 = m_budget st" "pass_frame st st1"
      by (auto simp: plane_ok_def pass_frame_def same_config_def)
    from Suc.IH[OF pre(1,2) rest] pre bp True show ?thesis
      by (auto intro: pass_frame_trans)
  qed
qed

lemma pad_bit_buffer_BPP [simp]: "\<not> QZ_TERM st \<Longrightarrow> pad_bit_buffer st = st"
  by (simp add: pad_bit_buffer_def)

lemma encode_start_frame [simp]:
  "QZ_TERM (encode_start fp st) = QZ_TERM st"
  "m_qz_term_lev (encode_start fp st) = m_qz_term_lev st"
  "m_budget (encode_start fp st) = m_budget st"
  "m_bit_buffer (encode_start fp st) = []"
  by (simp_all add: encode_start_def encode_setup_def Let_def m_initialize_sets_lists_def
        split: prod.splits)

theorem encode_bit_budget:
  assumes "\<not> QZ_TERM st" and "encode fp st = Some (Good, st')"
  shows "m_budget st' = m_budget st \<and> length (m_bit_buffer st') \<le> m_budget st
     \<and> (length (m_bit_buffer st') = m_budget st
         \<or> full_bitplanes (sigmap_toggle fp) 128 (m_max_coeff_bits (encode_start fp st))
              (encode_start fp st) = Some st')"
proof -
  from assms(2) have ready: "m_ready_to_encode st"
    by (auto simp: encode_def encode_with_def split: if_splits)
  with assms(1) have B: "0 < m_budget st" by (auto simp: m_ready_to_encode_def split: if_splits)
  from assms ready obtain st7 where
    loop: "encode_loop (sigmap_toggle fp) 128 (m_max_coeff_bits (encode_start fp st))
             (encode_start fp st) = Some st7"
    and st': "st' = pad_bit_buffer st7"
    by (auto simp: encode_def encode_with_def Let_def split: if_splits option.splits)
  have pre: "\<not> QZ_TERM (encode_start fp st)"
    "length (m_bit_buffer (encode_start fp st)) < m_budget (encode_start fp st)"
    using assms(1) B by simp_all
  from encode_loop_budget[OF pre loop] have
    "pass_frame (encode_start fp st) st7" "length (m_bit_buffer st7) \<le> m_budget st"
    "length (m_bit_buffer st7) = m_budget st
      \<or> full_bitplanes (sigmap_toggle fp) 128 (m_max_coeff_bits (encode_start fp st))
           (encode_start fp st) = Some st7"
    by simp_all
  moreover from this(1) assms(1) have "\<not> QZ_TERM st7" "m_budget st7 = m_budget st"
    by (simp_all add: pass_frame_def same_config_def)
  ultimately show ?thesis using st' by simp
qed

lemma num_of_partitions_loop_acc:
  "num_of_partitions_loop len acc = acc + num_of_partitions_loop len 0"
proof (induction len arbitrary: acc rule: less_induct)
  case (less len)
  show ?case
  proof (cases "len > 1")
    case True
    then have lt: "len - len div 2 < len" by auto
    have u: "num_of_partitions_loop len a = num_of_partitions_loop (len - len div 2) (a + 1)" for a
      using True by (subst num_of_partitions_loop.simps) simp
    have "num_of_partitions_loop len acc = acc + 1 + num_of_partitions_loop (len - len div 2) 0"
      unfolding u by (rule less[OF lt])
    moreover have "num_of_partitions_loop len 0 = 0 + 1 + num_of_partitions_loop (len - len div 2) 0"
      unfolding u by (rule less[OF lt])
    ultimately show ?thesis by simp
  next
    case False
    have "num_of_partitions_loop len a = a" for a
      using False by (subst num_of_partitions_loop.simps) simp
    then show ?thesis by simp
  qed
qed

lemma num_of_partitions_rec:
  "num_of_partitions len = (if len > 1 then 1 + num_of_partitions (len - len div 2) else 0)"
proof (cases "len > 1")
  case True
  have "num_of_partitions_loop len 0 = num_of_partitions_loop (len - len div 2) (0 + 1)"
    using True by (subst num_of_partitions_loop.simps) simp
  also have "\<dots> = 0 + 1 + num_of_partitions_loop (len - len div 2) 0"
    by (rule num_of_partitions_loop_acc)
  finally show ?thesis using True by (simp add: num_of_partitions_def)
next
  case False
  have "num_of_partitions_loop len 0 = 0"
    using False by (subst num_of_partitions_loop.simps) simp
  with False show ?thesis by (simp add: num_of_partitions_def)
qed

lemma num_of_partitions_small [simp]: "len \<le> 1 \<Longrightarrow> num_of_partitions len = 0"
  by (subst num_of_partitions_rec) simp











lemma keeps_same_LIS:
  "LIS_ok st \<Longrightarrow> m_LIS st' = m_LIS st \<Longrightarrow> dim_sum st' = dim_sum st \<Longrightarrow> keeps k st st'"
  by (simp add: keeps_def lis_inv_def LIS_ok_def)

lemma level_ok_signif [simp]: "level_ok nb d (s\<lparr> signif := x \<rparr>) = level_ok nb d s"
  by (simp add: level_ok_def need_def)

lemma level_ok_type [simp]: "level_ok nb d (s\<lparr> type := x \<rparr>) = level_ok nb d s"
  by (simp add: level_ok_def need_def)

lemma dim_sum_simps [simp]:
  "dim_sum (push_back b st) = dim_sum st"
  "dim_sum (LIS_update i j f st) = dim_sum st"
  "dim_sum (LIP_pushed st s) = dim_sum st"
  "dim_sum (LIS_pushed st s) = dim_sum st"
  "dim_sum (P_move st loc) = dim_sum st"
  by (simp_all add: dim_sum_def LIP_pushed_def LIS_pushed_def P_move_def)





lemma keeps_LIP_pushed: "LIS_ok st \<Longrightarrow> keeps k st (LIP_pushed st s)"
  by (rule keeps_same_LIS) (simp_all, simp add: LIP_pushed_def)



























lemma init_frame [simp]:
  "QZ_TERM (m_initialize_sets_lists fp st) = QZ_TERM st"
  "m_qz_term_lev (m_initialize_sets_lists fp st) = m_qz_term_lev st"
  "m_coeff_buf (m_initialize_sets_lists fp st) = m_coeff_buf st"
  "m_coeff_len (m_initialize_sets_lists fp st) = m_coeff_len st"
  "m_budget (m_initialize_sets_lists fp st) = m_budget st"
  "m_dim_x (m_initialize_sets_lists fp st) = m_dim_x st"
  "m_dim_y (m_initialize_sets_lists fp st) = m_dim_y st"
  "m_dim_z (m_initialize_sets_lists fp st) = m_dim_z st"
  "m_bit_buffer (m_initialize_sets_lists fp st) = m_bit_buffer st"
  "m_bit_idx (m_initialize_sets_lists fp st) = m_bit_idx st"
  "m_threshold (m_initialize_sets_lists fp st) = m_threshold st"
  "m_sign_array (m_initialize_sets_lists fp st) = m_sign_array st"
  "m_max_coeff_bits (m_initialize_sets_lists fp st) = m_max_coeff_bits st"
  "m_LIP (m_initialize_sets_lists fp st) = []"
  "m_LSP_new (m_initialize_sets_lists fp st) = []"
  "m_LSP_old (m_initialize_sets_lists fp st) = []"
  by (simp_all add: m_initialize_sets_lists_def Let_def split: prod.splits)


text \<open>The state on entry to the loop of \<^verbatim>\<open>encode\<close>.\<close>

lemma encode_start_fields [simp]:
  "m_max_coeff_bits (encode_start fp st) = floor_log2 fp (max_coeff_of st)"
  "m_dim_x (encode_start fp st) = m_dim_x st"
  "m_dim_y (encode_start fp st) = m_dim_y st"
  "m_dim_z (encode_start fp st) = m_dim_z st"
  "m_LIS (encode_start fp st) = m_LIS (m_initialize_sets_lists fp (st\<lparr> m_encode_mode := True \<rparr>))"
  by (simp_all add: encode_start_def encode_setup_def Let_def max_coeff_of_def
        split: prod.splits)







section \<open>Return codes of \<^verbatim>\<open>encode\<close>\<close>





section \<open>Volumes of depth one\<close>




end
